theory Spec2Isabelle
  imports Main
begin

section \<open>Scalar type aliases of numpy: the tables of \<^verbatim>\<open>numpy/core/_type_aliases.py\<close>\<close>

text \<open>
  The module is a script that runs once at import. It reads three collaborators that live
  in the C extension \<^verbatim>\<open>numpy.core.multiarray\<close> and are taken as parameters here:
  \<^item> \<^verbatim>\<open>typeinfo\<close>, a dictionary from names to type-info objects, each with the
    attributes \<^verbatim>\<open>kind\<close> and \<^verbatim>\<open>type\<close>; the script reads \<^verbatim>\<open>kind\<close> of every
    value (line 98) and \<^verbatim>\<open>type\<close> of the others (lines 44 and 101), so every value
    is such an object;
  \<^item> the module \<^verbatim>\<open>ma\<close> with the ten abstract scalar classes as attributes;
  \<^item> \<^verbatim>\<open>dtype(t).itemsize\<close> and \<^verbatim>\<open>issubclass\<close> on type handles;
  \<^item> the equality of the values of \<^verbatim>\<open>typeinfo\<close>, which decides what the set of
    line 97 keeps.
  It builds \<^verbatim>\<open>sctypeDict\<close>, \<^verbatim>\<open>allTypes\<close>, \<^verbatim>\<open>c_names_dict\<close> and \<^verbatim>\<open>sctypes\<close>.
  Dictionaries are maps; a dictionary that is iterated is the list of its items in
  iteration order. A failing subscript is the value \<open>Inl KeyError\<close>, a failing
  \<^verbatim>\<open>getattr\<close> is \<open>Inl AttributeError\<close>.
\<close>

subsection \<open>Data\<close>

datatype error = KeyError | AttributeError

text \<open>A value of \<^verbatim>\<open>typeinfo\<close>: \<^verbatim>\<open>v.kind\<close> is a one-character string, \<^verbatim>\<open>v.type\<close> a type handle.\<close>

record 'ty type_info =
  kind :: string
  type :: 'ty

text \<open>
  The objects the script tests for membership in a dictionary keyed by strings. Two objects
  are the same key when they are equal; a type-info object is never equal to a string.
\<close>

datatype 'ty pyobj = Str string | Info "'ty type_info"

definition contains :: "(string \<rightharpoonup> 'a) \<Rightarrow> 'ty pyobj \<Rightarrow> bool" where
  "contains d x = (case x of Str s \<Rightarrow> d s \<noteq> None | Info v \<Rightarrow> False)"

text \<open>The module \<^verbatim>\<open>ma\<close>, as far as the script reads it.\<close>

record 'ty multiarray =
  generic :: 'ty
  integer :: 'ty
  inexact :: 'ty
  floating :: 'ty
  number :: 'ty
  flexible :: 'ty
  character :: 'ty
  complexfloating :: 'ty
  unsignedinteger :: 'ty
  signedinteger :: 'ty

definition getattr :: "'ty multiarray \<Rightarrow> string \<Rightarrow> 'ty option" where
  "getattr ma n = map_of
     [(''generic'', generic ma), (''integer'', integer ma), (''inexact'', inexact ma),
      (''floating'', floating ma), (''number'', number ma), (''flexible'', flexible ma),
      (''character'', character ma), (''complexfloating'', complexfloating ma),
      (''unsignedinteger'', unsignedinteger ma), (''signedinteger'', signedinteger ma)] n"

text \<open>The three name tables, lines 27 to 29.\<close>

record 'ty tables =
  sctypeDict :: "string \<rightharpoonup> 'ty"
  allTypes :: "string \<rightharpoonup> 'ty"
  c_names_dict :: "string \<rightharpoonup> 'ty type_info"

definition empty_tables :: "'ty tables" where
  "empty_tables = \<lparr>sctypeDict = Map.empty, allTypes = Map.empty, c_names_dict = Map.empty\<rparr>"

subsection \<open>Strings\<close>

definition startswith :: "string \<Rightarrow> string \<Rightarrow> bool" where
  "startswith k p = (take (length p) k = p)"

definition digit :: "nat \<Rightarrow> char" where
  "digit d = ''0123456789'' ! d"

text \<open>The decimal digits of a natural number, as the f-string of line 85 prints them.\<close>

fun str :: "nat \<Rightarrow> string" where
  "str n = (if n < 10 then [digit n] else str (n div 10) @ [digit (n mod 10)])"

declare str.simps [simp del]

subsection \<open>Building \<^verbatim>\<open>sctypeDict\<close> and \<^verbatim>\<open>allTypes\<close>\<close>

text \<open>
  Line 31: a set of ten strings. The loop of line 37 writes one key for each, so the
  order in which the set is iterated does not show in the result.
\<close>

definition abstract_type_names :: "string list" where
  "abstract_type_names =
     [''generic'', ''integer'', ''inexact'', ''floating'', ''number'',
      ''flexible'', ''character'', ''complexfloating'', ''unsignedinteger'',
      ''signedinteger'']"

fun abstract_loop :: "'ty multiarray \<Rightarrow> string list \<Rightarrow> 'ty tables \<Rightarrow> error + 'ty tables" where
  "abstract_loop ma [] s = Inr s"
| "abstract_loop ma (n # ns) s =
     (case getattr ma n of
        None \<Rightarrow> Inl AttributeError
      | Some t \<Rightarrow> abstract_loop ma ns (s\<lparr>allTypes := (allTypes s)(n \<mapsto> t)\<rparr>))"

text \<open>Lines 40 to 46, over the items of \<^verbatim>\<open>typeinfo\<close>.\<close>

fun registry_loop :: "(string \<times> 'ty type_info) list \<Rightarrow> 'ty tables \<Rightarrow> 'ty tables" where
  "registry_loop [] s = s"
| "registry_loop ((k, v) # kvs) s =
     registry_loop kvs
       (if startswith k ''NPY_'' \<and> \<not> contains (c_names_dict s) (Info v)
        then s\<lparr>c_names_dict := (c_names_dict s)(drop 4 k \<mapsto> v)\<rparr>
        else s\<lparr>allTypes := (allTypes s)(k \<mapsto> type v),
               sctypeDict := (sctypeDict s)(k \<mapsto> type v)\<rparr>)"

definition aliases :: "(string \<times> string) list" where
  "aliases =
     [(''double'', ''float64''), (''cdouble'', ''complex128''), (''single'', ''float32''),
      (''csingle'', ''complex64''), (''half'', ''float16'')]"

text \<open>Lines 56 to 58.\<close>

fun alias_loop :: "(string \<times> string) list \<Rightarrow> 'ty tables \<Rightarrow> error + 'ty tables" where
  "alias_loop [] s = Inr s"
| "alias_loop ((k, v) # kvs) s =
     (case allTypes s v of
        None \<Rightarrow> Inl KeyError
      | Some t \<Rightarrow>
          alias_loop kvs
            (s\<lparr>sctypeDict := (sctypeDict s)(k \<mapsto> t), allTypes := (allTypes s)(k \<mapsto> t)\<rparr>))"

definition extra_aliases :: "(string \<times> string) list" where
  "extra_aliases =
     [(''bool'', ''bool_''), (''float'', ''float64''), (''complex'', ''complex128''),
      (''object'', ''object_''), (''bytes'', ''bytes_''), (''a'', ''bytes_''),
      (''int'', ''int_''), (''long'', ''int_''), (''ulong'', ''uint''),
      (''str'', ''str_''), (''unicode'', ''str_'')]"

text \<open>Lines 76 and 77.\<close>

fun extra_alias_loop :: "(string \<times> string) list \<Rightarrow> 'ty tables \<Rightarrow> error + 'ty tables" where
  "extra_alias_loop [] s = Inr s"
| "extra_alias_loop ((k, v) # kvs) s =
     (case allTypes s v of
        None \<Rightarrow> Inl KeyError
      | Some t \<Rightarrow> extra_alias_loop kvs (s\<lparr>sctypeDict := (sctypeDict s)(k \<mapsto> t)\<rparr>))"

definition extended_prec_name :: "('ty \<Rightarrow> nat) \<Rightarrow> bool \<Rightarrow> 'ty \<Rightarrow> string" where
  "extended_prec_name itemsize is_complex longdouble_type =
     (let bits = itemsize longdouble_type * 8;
          base_name = (if is_complex then ''complex'' else ''float'')
      in base_name @ str bits)"

text \<open>Lines 80 to 88; \<open>itemsize t\<close> is \<^verbatim>\<open>dtype(t).itemsize\<close>.\<close>

fun extended_loop :: "('ty \<Rightarrow> nat) \<Rightarrow> (bool \<times> string) list \<Rightarrow> 'ty tables \<Rightarrow> error + 'ty tables" where
  "extended_loop itemsize [] s = Inr s"
| "extended_loop itemsize ((is_complex, full_name) # rest) s =
     (case allTypes s full_name of
        None \<Rightarrow> Inl KeyError
      | Some longdouble_type \<Rightarrow>
          (let name = extended_prec_name itemsize is_complex longdouble_type
           in extended_loop itemsize rest
                (if allTypes s name = None
                 then s\<lparr>sctypeDict := (sctypeDict s)(name \<mapsto> longdouble_type),
                        allTypes := (allTypes s)(name \<mapsto> longdouble_type)\<rparr>
                 else s)))"

definition longdoubles :: "(bool \<times> string) list" where
  "longdoubles = [(False, ''longdouble''), (True, ''clongdouble'')]"

text \<open>The state after each of the first four loops, and the tables the script ends with.\<close>

definition after_abstract :: "'ty multiarray \<Rightarrow> error + 'ty tables" where
  "after_abstract ma = abstract_loop ma abstract_type_names empty_tables"

definition after_registry ::
  "'ty multiarray \<Rightarrow> (string \<times> 'ty type_info) list \<Rightarrow> error + 'ty tables" where
  "after_registry ma typeinfo =
     (case after_abstract ma of Inl e \<Rightarrow> Inl e | Inr s \<Rightarrow> Inr (registry_loop typeinfo s))"

definition after_aliases ::
  "'ty multiarray \<Rightarrow> (string \<times> 'ty type_info) list \<Rightarrow> error + 'ty tables" where
  "after_aliases ma typeinfo =
     (case after_registry ma typeinfo of Inl e \<Rightarrow> Inl e | Inr s \<Rightarrow> alias_loop aliases s)"

definition after_extra_aliases ::
  "'ty multiarray \<Rightarrow> (string \<times> 'ty type_info) list \<Rightarrow> error + 'ty tables" where
  "after_extra_aliases ma typeinfo =
     (case after_aliases ma typeinfo of
        Inl e \<Rightarrow> Inl e
      | Inr s \<Rightarrow> extra_alias_loop extra_aliases s)"

definition build_tables ::
  "'ty multiarray \<Rightarrow> ('ty \<Rightarrow> nat) \<Rightarrow> (string \<times> 'ty type_info) list \<Rightarrow> error + 'ty tables" where
  "build_tables ma itemsize typeinfo =
     (case after_extra_aliases ma typeinfo of
        Inl e \<Rightarrow> Inl e
      | Inr s \<Rightarrow> extended_loop itemsize longdoubles s)"

subsection \<open>Building \<^verbatim>\<open>sctypes\<close>\<close>

type_synonym 'ty sctypes = "string \<rightharpoonup> 'ty list"

text \<open>Line 95.\<close>

definition empty_sctypes :: "'ty sctypes" where
  "empty_sctypes =
     [''int'' \<mapsto> [], ''uint'' \<mapsto> [], ''float'' \<mapsto> [], ''complex'' \<mapsto> [], ''others'' \<mapsto> []]"

text \<open>The list of lines 104 to 108.\<close>

definition type_groups :: "'ty multiarray \<Rightarrow> (string \<times> 'ty) list" where
  "type_groups ma =
     [(''int'', signedinteger ma), (''uint'', unsignedinteger ma),
      (''float'', floating ma), (''complex'', complexfloating ma),
      (''others'', generic ma)]"

text \<open>
  The inner loop, lines 104 to 111: the first group whose abstract type is a superclass
  takes the type and the loop breaks; when no group matches, nothing is appended.
\<close>

fun group_loop ::
  "('ty \<Rightarrow> 'ty \<Rightarrow> bool) \<Rightarrow> 'ty \<Rightarrow> (string \<times> 'ty) list \<Rightarrow> 'ty sctypes \<Rightarrow> error + 'ty sctypes" where
  "group_loop issubclass concrete_type [] s = Inr s"
| "group_loop issubclass concrete_type ((type_group, abstract_type) # rest) s =
     (if issubclass concrete_type abstract_type
      then (case s type_group of
              None \<Rightarrow> Inl KeyError
            | Some l \<Rightarrow> Inr (s(type_group \<mapsto> l @ [concrete_type])))
      else group_loop issubclass concrete_type rest s)"

text \<open>
  The outer loop, lines 97 to 111. Its argument is the sequence in which the set
  \<^verbatim>\<open>set(typeinfo.values())\<close> is iterated.
\<close>

fun sctypes_loop ::
  "'ty multiarray \<Rightarrow> ('ty \<Rightarrow> 'ty \<Rightarrow> bool) \<Rightarrow> 'ty type_info list \<Rightarrow> 'ty sctypes \<Rightarrow> error + 'ty sctypes" where
  "sctypes_loop ma issubclass [] s = Inr s"
| "sctypes_loop ma issubclass (type_info # rest) s =
     (if kind type_info \<in> set [''M'', ''m''] then sctypes_loop ma issubclass rest s
      else (case group_loop issubclass (type type_info) (type_groups ma) s of
              Inl e \<Rightarrow> Inl e
            | Inr s' \<Rightarrow> sctypes_loop ma issubclass rest s'))"

text \<open>
  The set of line 97. Python builds it from the values in the order of the registry and
  leaves a value out when an equal one is already in the set. Which values are equal is
  decided by the values' own \<^verbatim>\<open>__eq__\<close> and \<^verbatim>\<open>__hash__\<close>, which are not in this
  module: \<open>same k k'\<close> says that the values registered under the names \<open>k\<close> and
  \<open>k'\<close> are one object or compare equal. Two values that compare equal may differ in
  \<^verbatim>\<open>type\<close>, and two that agree in \<^verbatim>\<open>kind\<close> and \<^verbatim>\<open>type\<close> may compare unequal.
\<close>

definition add_value ::
  "(string \<Rightarrow> string \<Rightarrow> bool) \<Rightarrow> (string \<times> 'v) list \<Rightarrow> string \<times> 'v \<Rightarrow> (string \<times> 'v) list" where
  "add_value same kept kv =
     (if list_ex (\<lambda>kv'. same (fst kv') (fst kv)) kept then kept else kept @ [kv])"

definition set_values :: "(string \<Rightarrow> string \<Rightarrow> bool) \<Rightarrow> (string \<times> 'v) list \<Rightarrow> 'v list" where
  "set_values same typeinfo = map snd (foldl (add_value same) [] typeinfo)"

text \<open>Python does not fix the order in which a set is iterated: any order may come.\<close>

fun permutes :: "'a list \<Rightarrow> 'a list \<Rightarrow> bool" where
  "permutes [] ys \<longleftrightarrow> ys = []"
| "permutes (x # xs) ys \<longleftrightarrow> x \<in> set ys \<and> permutes xs (remove1 x ys)"

definition iterates ::
  "(string \<Rightarrow> string \<Rightarrow> bool) \<Rightarrow> 'v list \<Rightarrow> (string \<times> 'v) list \<Rightarrow> bool" where
  "iterates same vs typeinfo \<longleftrightarrow> permutes vs (set_values same typeinfo)"

text \<open>Lines 114 and 115: \<^verbatim>\<open>list.sort\<close> is stable, as \<open>sort_key\<close> is.\<close>

definition sort_groups :: "('ty \<Rightarrow> nat) \<Rightarrow> 'ty sctypes \<Rightarrow> 'ty sctypes" where
  "sort_groups itemsize s = (\<lambda>g. map_option (sort_key itemsize) (s g))"

definition classified ::
  "'ty multiarray \<Rightarrow> ('ty \<Rightarrow> 'ty \<Rightarrow> bool) \<Rightarrow> 'ty type_info list \<Rightarrow> error + 'ty sctypes" where
  "classified ma issubclass vs = sctypes_loop ma issubclass vs empty_sctypes"

definition build_sctypes ::
  "'ty multiarray \<Rightarrow> ('ty \<Rightarrow> 'ty \<Rightarrow> bool) \<Rightarrow> ('ty \<Rightarrow> nat) \<Rightarrow> 'ty type_info list \<Rightarrow> error + 'ty sctypes" where
  "build_sctypes ma issubclass itemsize vs =
     (case classified ma issubclass vs of
        Inl e \<Rightarrow> Inl e
      | Inr s \<Rightarrow> Inr (sort_groups itemsize s))"

subsection \<open>The whole script\<close>

definition script ::
  "'ty multiarray \<Rightarrow> ('ty \<Rightarrow> 'ty \<Rightarrow> bool) \<Rightarrow> ('ty \<Rightarrow> nat) \<Rightarrow> (string \<times> 'ty type_info) list \<Rightarrow>
   'ty type_info list \<Rightarrow> error + ('ty tables \<times> 'ty sctypes)" where
  "script ma issubclass itemsize typeinfo vs =
     (case build_tables ma itemsize typeinfo of
        Inl e \<Rightarrow> Inl e
      | Inr t \<Rightarrow>
          (case build_sctypes ma issubclass itemsize vs of
             Inl e \<Rightarrow> Inl e
           | Inr s \<Rightarrow> Inr (t, s)))"

subsection \<open>Notions used in the statements\<close>

text \<open>The keys of \<^verbatim>\<open>sctypes\<close>, line 95.\<close>

definition group_names :: "string list" where
  "group_names = [''int'', ''uint'', ''float'', ''complex'', ''others'']"

text \<open>The group whose test the inner loop of lines 104 to 111 passes first, if any.\<close>

fun group_of :: "('ty \<Rightarrow> 'ty \<Rightarrow> bool) \<Rightarrow> 'ty \<Rightarrow> (string \<times> 'ty) list \<Rightarrow> string option" where
  "group_of issubclass concrete_type [] = None"
| "group_of issubclass concrete_type ((type_group, abstract_type) # rest) =
     (if issubclass concrete_type abstract_type then Some type_group
      else group_of issubclass concrete_type rest)"

text \<open>The types that group \<open>g\<close> takes, in the order in which the values are iterated.\<close>

definition members ::
  "'ty multiarray \<Rightarrow> ('ty \<Rightarrow> 'ty \<Rightarrow> bool) \<Rightarrow> 'ty type_info list \<Rightarrow> string \<Rightarrow> 'ty list" where
  "members ma issubclass vs g =
     map type (filter (\<lambda>v. kind v \<notin> set [''M'', ''m''] \<and>
                            group_of issubclass (type v) (type_groups ma) = Some g) vs)"

text \<open>
  The registry seen through the branch of lines 44 to 46: the type of each entry whose
  name does not start with \<^verbatim>\<open>NPY_\<close>.
\<close>

definition registered :: "(string \<times> 'ty type_info) list \<Rightarrow> string \<rightharpoonup> 'ty" where
  "registered typeinfo k =
     (if startswith k ''NPY_'' then None else map_option type (map_of typeinfo k))"

text \<open>The entries that the loop of lines 80 to 88 writes when their names are free.\<close>

definition extended :: "('ty \<Rightarrow> nat) \<Rightarrow> (string \<times> 'ty type_info) list \<Rightarrow> string \<rightharpoonup> 'ty" where
  "extended itemsize typeinfo =
     (case registered typeinfo ''longdouble'' of
        None \<Rightarrow> Map.empty
      | Some l \<Rightarrow>
          (case registered typeinfo ''clongdouble'' of
             None \<Rightarrow> Map.empty
           | Some c \<Rightarrow> [extended_prec_name itemsize False l \<mapsto> l,
                        extended_prec_name itemsize True c \<mapsto> c]))"

definition ends_in_digit :: "string \<Rightarrow> bool" where
  "ends_in_digit k \<longleftrightarrow> k \<noteq> [] \<and> last k \<in> set ''0123456789''"

text \<open>The two results of a run that did not raise.\<close>

definition tables_of :: "error + ('ty tables \<times> 'ty sctypes) \<Rightarrow> 'ty tables" where
  "tables_of r = fst (projr r)"

definition sctypes_of :: "error + ('ty tables \<times> 'ty sctypes) \<Rightarrow> 'ty sctypes" where
  "sctypes_of r = snd (projr r)"

subsection \<open>Example registries\<close>

text \<open>
  Type handles are numbers. The abstract classes are 100 to 109; the concrete types are
  1 to 15 and 20.
\<close>

definition ex_ma :: "nat multiarray" where
  "ex_ma = \<lparr>generic = 100, integer = 101, inexact = 102, floating = 103, number = 104,
            flexible = 105, character = 106, complexfloating = 107, unsignedinteger = 108,
            signedinteger = 109\<rparr>"

definition ex_issubclass :: "nat \<Rightarrow> nat \<Rightarrow> bool" where
  "ex_issubclass t a \<longleftrightarrow>
     (a = 109 \<and> t \<in> set [2, 20]) \<or> (a = 108 \<and> t = 3) \<or> (a = 103 \<and> t \<in> set [4, 5, 6, 7]) \<or>
     (a = 107 \<and> t \<in> set [8, 9, 10]) \<or> (a = 100 \<and> t < 100)"

definition ex_itemsize :: "nat \<Rightarrow> nat" where
  "ex_itemsize t =
     (case map_of [(1, 1), (2, 8), (3, 8), (4, 2), (5, 4), (6, 8), (7, 16), (8, 8), (9, 16),
                   (10, 32), (11, 8), (12, 0), (13, 0), (14, 8), (15, 8), (20, 4)] t of
        Some n \<Rightarrow> n
      | None \<Rightarrow> 0)"

definition ex_typeinfo :: "(string \<times> nat type_info) list" where
  "ex_typeinfo =
     [(''bool_'', \<lparr>kind = ''b'', type = 1\<rparr>),
      (''int_'', \<lparr>kind = ''i'', type = 2\<rparr>),
      (''uint'', \<lparr>kind = ''u'', type = 3\<rparr>),
      (''float16'', \<lparr>kind = ''f'', type = 4\<rparr>),
      (''float32'', \<lparr>kind = ''f'', type = 5\<rparr>),
      (''float64'', \<lparr>kind = ''f'', type = 6\<rparr>),
      (''longdouble'', \<lparr>kind = ''f'', type = 7\<rparr>),
      (''complex64'', \<lparr>kind = ''c'', type = 8\<rparr>),
      (''complex128'', \<lparr>kind = ''c'', type = 9\<rparr>),
      (''clongdouble'', \<lparr>kind = ''c'', type = 10\<rparr>),
      (''object_'', \<lparr>kind = ''O'', type = 11\<rparr>),
      (''bytes_'', \<lparr>kind = ''S'', type = 12\<rparr>),
      (''str_'', \<lparr>kind = ''U'', type = 13\<rparr>),
      (''datetime64'', \<lparr>kind = ''M'', type = 14\<rparr>),
      (''timedelta64'', \<lparr>kind = ''m'', type = 15\<rparr>),
      (''NPY_DOUBLE'', \<lparr>kind = ''f'', type = 6\<rparr>),
      (''NPY_DATETIME'', \<lparr>kind = ''M'', type = 14\<rparr>)]"


text \<open>
  The set of line 97 then has fifteen values. One order in which they may be iterated:
\<close>

definition ex_values :: "nat type_info list" where
  "ex_values =
     [\<lparr>kind = ''f'', type = 6\<rparr>, \<lparr>kind = ''O'', type = 11\<rparr>, \<lparr>kind = ''c'', type = 10\<rparr>,
      \<lparr>kind = ''i'', type = 2\<rparr>, \<lparr>kind = ''M'', type = 14\<rparr>, \<lparr>kind = ''f'', type = 4\<rparr>,
      \<lparr>kind = ''U'', type = 13\<rparr>, \<lparr>kind = ''c'', type = 8\<rparr>, \<lparr>kind = ''b'', type = 1\<rparr>,
      \<lparr>kind = ''f'', type = 7\<rparr>, \<lparr>kind = ''u'', type = 3\<rparr>, \<lparr>kind = ''m'', type = 15\<rparr>,
      \<lparr>kind = ''S'', type = 12\<rparr>, \<lparr>kind = ''f'', type = 5\<rparr>, \<lparr>kind = ''c'', type = 9\<rparr>]"

definition ex_run :: "error + (nat tables \<times> nat sctypes)" where
  "ex_run = script ex_ma ex_issubclass ex_itemsize ex_typeinfo ex_values"

text \<open>
  A registry with two more entries: a name that is also a convenience synonym, and a name
  that is also an abstract category; their values have one concrete type and two kinds.
\<close>

definition odd_typeinfo :: "(string \<times> nat type_info) list" where
  "odd_typeinfo =
     ex_typeinfo @
     [(''long'', \<lparr>kind = ''i'', type = 20\<rparr>), (''integer'', \<lparr>kind = ''u'', type = 20\<rparr>)]"

definition odd_values :: "nat type_info list" where
  "odd_values = \<lparr>kind = ''u'', type = 20\<rparr> # ex_values @ [\<lparr>kind = ''i'', type = 20\<rparr>]"

definition odd_run :: "error + (nat tables \<times> nat sctypes)" where
  "odd_run = script ex_ma ex_issubclass ex_itemsize odd_typeinfo odd_values"

text \<open>A platform whose \<^verbatim>\<open>longdouble\<close> is as wide as its \<^verbatim>\<open>double\<close>.\<close>

definition narrow_itemsize :: "nat \<Rightarrow> nat" where
  "narrow_itemsize t = (if t = 7 then 8 else if t = 10 then 16 else ex_itemsize t)"

definition narrow_run :: "error + (nat tables \<times> nat sctypes)" where
  "narrow_run = script ex_ma ex_issubclass narrow_itemsize ex_typeinfo ex_values"

text \<open>
  A registry as numpy has it where \<^verbatim>\<open>long\<close> and \<^verbatim>\<open>long long\<close> are both eight bytes
  wide: \<^verbatim>\<open>longlong\<close> has a scalar type of its own, 21, a subclass of
  \<^verbatim>\<open>signedinteger\<close>, and its value compares equal to the value of \<^verbatim>\<open>int_\<close>, as two
  values of one kind and one item size do.
\<close>

definition linux_typeinfo :: "(string \<times> nat type_info) list" where
  "linux_typeinfo = ex_typeinfo @ [(''longlong'', \<lparr>kind = ''i'', type = 21\<rparr>)]"

definition linux_issubclass :: "nat \<Rightarrow> nat \<Rightarrow> bool" where
  "linux_issubclass t a \<longleftrightarrow> ex_issubclass t a \<or> (a = 109 \<and> t = 21)"

definition linux_itemsize :: "nat \<Rightarrow> nat" where
  "linux_itemsize t = (if t = 21 then 8 else ex_itemsize t)"

definition linux_same :: "string \<Rightarrow> string \<Rightarrow> bool" where
  "linux_same k k' \<longleftrightarrow>
     map_option (\<lambda>v. (kind v, linux_itemsize (type v))) (map_of linux_typeinfo k) =
     map_option (\<lambda>v. (kind v, linux_itemsize (type v))) (map_of linux_typeinfo k')"

definition linux_run :: "error + (nat tables \<times> nat sctypes)" where
  "linux_run = script ex_ma linux_issubclass linux_itemsize linux_typeinfo ex_values"



section \<open>Properties\<close>

subsection \<open>The loops of the name tables\<close>

lemma contains_Info [simp]: "contains d (Info v) = False"
  by (simp add: contains_def)

lemma startswith_iff: "startswith k p \<longleftrightarrow> p @ drop (length p) k = k"
  unfolding startswith_def by (metis append_eq_conv_conj append_take_drop_id)

lemma startswith_NPY: "startswith k ''NPY_'' \<longleftrightarrow> ''NPY_'' @ drop 4 k = k"
  using startswith_iff [of k "''NPY_''"] by (simp add: eval_nat_numeral)

lemma startswith_append [simp]: "startswith (p @ r) p"
  by (simp add: startswith_def)

lemma registry_loop_allTypes:
  "distinct (map fst kvs) \<Longrightarrow>
   allTypes (registry_loop kvs s) k =
     (case map_of kvs k of
        Some v \<Rightarrow> if startswith k ''NPY_'' then allTypes s k else Some (type v)
      | None \<Rightarrow> allTypes s k)"
proof (induction kvs arbitrary: s)
  case Nil
  then show ?case by simp
next
  case (Cons kv kvs)
  obtain k0 v0 where kv: "kv = (k0, v0)" by (cases kv)
  from Cons.prems have d: "distinct (map fst kvs)" and n: "map_of kvs k0 = None"
    by (auto simp: kv map_of_eq_None_iff)
  show ?case
    using n by (auto simp: kv Cons.IH [OF d] split: option.splits)
qed

lemma registry_loop_sctypeDict:
  "distinct (map fst kvs) \<Longrightarrow>
   sctypeDict (registry_loop kvs s) k =
     (case map_of kvs k of
        Some v \<Rightarrow> if startswith k ''NPY_'' then sctypeDict s k else Some (type v)
      | None \<Rightarrow> sctypeDict s k)"
proof (induction kvs arbitrary: s)
  case Nil
  then show ?case by simp
next
  case (Cons kv kvs)
  obtain k0 v0 where kv: "kv = (k0, v0)" by (cases kv)
  from Cons.prems have d: "distinct (map fst kvs)" and n: "map_of kvs k0 = None"
    by (auto simp: kv map_of_eq_None_iff)
  show ?case
    using n by (auto simp: kv Cons.IH [OF d] split: option.splits)
qed

lemma registry_loop_c_names_dict:
  "distinct (map fst kvs) \<Longrightarrow>
   c_names_dict (registry_loop kvs s) n =
     (case map_of kvs (''NPY_'' @ n) of
        Some v \<Rightarrow> Some v
      | None \<Rightarrow> c_names_dict s n)"
proof (induction kvs arbitrary: s)
  case Nil
  then show ?case by simp
next
  case (Cons kv kvs)
  obtain k0 v0 where kv: "kv = (k0, v0)" by (cases kv)
  from Cons.prems have d: "distinct (map fst kvs)" and n: "map_of kvs k0 = None"
    by (auto simp: kv map_of_eq_None_iff)
  show ?case
    using n by (auto simp: kv Cons.IH [OF d] simp: startswith_NPY split: option.splits)
qed


lemma abstract_loop_result:
  "abstract_loop ma ns s = Inr s' \<Longrightarrow>
   allTypes s' = (\<lambda>k. if k \<in> set ns then getattr ma k else allTypes s k) \<and>
   sctypeDict s' = sctypeDict s \<and> c_names_dict s' = c_names_dict s"
proof (induction ns arbitrary: s)
  case Nil
  then show ?case by simp
next
  case (Cons n ns)
  from Cons.prems obtain t where t: "getattr ma n = Some t"
    and r: "abstract_loop ma ns (s\<lparr>allTypes := (allTypes s)(n \<mapsto> t)\<rparr>) = Inr s'"
    by (auto split: option.splits)
  from Cons.IH [OF r] t show ?case by (auto simp: fun_eq_iff)
qed

lemma getattr_dom: "getattr ma k \<noteq> None \<longleftrightarrow> k \<in> set abstract_type_names"
  by (simp add: getattr_def abstract_type_names_def)

lemma abstract_loop_succeeds:
  "set ns \<subseteq> set abstract_type_names \<Longrightarrow> \<exists>s'. abstract_loop ma ns s = Inr s'"
proof (induction ns arbitrary: s)
  case Nil
  then show ?case by simp
next
  case (Cons n ns)
  from Cons.prems have "getattr ma n \<noteq> None" using getattr_dom [of ma n] by simp
  then obtain t where t: "getattr ma n = Some t" by blast
  from Cons.prems have "set ns \<subseteq> set abstract_type_names" by simp
  from Cons.IH [OF this] t show ?case by simp
qed

lemma after_abstract_result:
  "\<exists>s. after_abstract ma = Inr s \<and> allTypes s = getattr ma \<and>
       sctypeDict s = Map.empty \<and> c_names_dict s = Map.empty"
proof -
  obtain s where s: "abstract_loop ma abstract_type_names empty_tables = Inr s"
    using abstract_loop_succeeds [of abstract_type_names ma empty_tables] by blast
  have "allTypes s k = getattr ma k" for k
    using abstract_loop_result [OF s] getattr_dom [of ma k]
    by (auto simp: empty_tables_def)
  with abstract_loop_result [OF s] s show ?thesis
    by (auto simp: after_abstract_def empty_tables_def fun_eq_iff)
qed

lemma alias_loop_result:
  "alias_loop als s = Inr s' \<Longrightarrow> distinct (map fst als) \<Longrightarrow>
   fst ` set als \<inter> snd ` set als = {} \<Longrightarrow>
   allTypes s' = (\<lambda>k. case map_of als k of Some v \<Rightarrow> allTypes s v | None \<Rightarrow> allTypes s k) \<and>
   sctypeDict s' = (\<lambda>k. case map_of als k of Some v \<Rightarrow> allTypes s v | None \<Rightarrow> sctypeDict s k) \<and>
   c_names_dict s' = c_names_dict s"
proof (induction als arbitrary: s)
  case Nil
  then show ?case by simp
next
  case (Cons kv als)
  obtain k0 v0 where kv: "kv = (k0, v0)" by (cases kv)
  from Cons.prems(1) obtain t where t: "allTypes s v0 = Some t"
    and r: "alias_loop als
              (s\<lparr>sctypeDict := (sctypeDict s)(k0 \<mapsto> t), allTypes := (allTypes s)(k0 \<mapsto> t)\<rparr>) = Inr s'"
    by (auto simp: kv split: option.splits)
  from Cons.prems(2) have d: "distinct (map fst als)" and n: "map_of als k0 = None"
    by (auto simp: kv map_of_eq_None_iff)
  from Cons.prems(3) have i: "fst ` set als \<inter> snd ` set als = {}"
    and k0: "k0 \<notin> snd ` set als" by (auto simp: kv)
  have tgt: "v \<noteq> k0" if "map_of als k = Some v" for k v
    using that k0 by (metis image_eqI map_of_SomeD snd_conv)
  from Cons.IH [OF r d i] t n show ?case
    by (auto simp: kv fun_eq_iff dest: tgt split: option.splits)
qed

lemma extra_alias_loop_result:
  "extra_alias_loop als s = Inr s' \<Longrightarrow> distinct (map fst als) \<Longrightarrow>
   allTypes s' = allTypes s \<and>
   sctypeDict s' = (\<lambda>k. case map_of als k of Some v \<Rightarrow> allTypes s v | None \<Rightarrow> sctypeDict s k) \<and>
   c_names_dict s' = c_names_dict s"
proof (induction als arbitrary: s)
  case Nil
  then show ?case by simp
next
  case (Cons kv als)
  obtain k0 v0 where kv: "kv = (k0, v0)" by (cases kv)
  from Cons.prems(1) obtain t where t: "allTypes s v0 = Some t"
    and r: "extra_alias_loop als (s\<lparr>sctypeDict := (sctypeDict s)(k0 \<mapsto> t)\<rparr>) = Inr s'"
    by (auto simp: kv split: option.splits)
  from Cons.prems(2) have d: "distinct (map fst als)" and n: "map_of als k0 = None"
    by (auto simp: kv map_of_eq_None_iff)
  from Cons.IH [OF r d] t n show ?case
    by (auto simp: kv fun_eq_iff split: option.splits)
qed

lemma alias_loop_targets:
  "alias_loop als s = Inr s' \<Longrightarrow> fst ` set als \<inter> snd ` set als = {} \<Longrightarrow>
   (k, v) \<in> set als \<Longrightarrow> allTypes s v \<noteq> None"
proof (induction als arbitrary: s)
  case Nil
  then show ?case by simp
next
  case (Cons kv als)
  obtain k0 v0 where kv: "kv = (k0, v0)" by (cases kv)
  from Cons.prems(1) obtain t where t: "allTypes s v0 = Some t"
    and r: "alias_loop als
              (s\<lparr>sctypeDict := (sctypeDict s)(k0 \<mapsto> t), allTypes := (allTypes s)(k0 \<mapsto> t)\<rparr>) = Inr s'"
    by (auto simp: kv split: option.splits)
  from Cons.prems(2) have i: "fst ` set als \<inter> snd ` set als = {}"
    and k0: "k0 \<notin> snd ` set als" by (auto simp: kv)
  show ?case
  proof (cases "(k, v) = (k0, v0)")
    case True
    with t show ?thesis by simp
  next
    case False
    with Cons.prems(3) have m: "(k, v) \<in> set als" by (auto simp: kv)
    then have "v \<noteq> k0" using k0 by force
    with Cons.IH [OF r i m] show ?thesis by simp
  qed
qed

lemma extra_alias_loop_targets:
  "extra_alias_loop als s = Inr s' \<Longrightarrow> (k, v) \<in> set als \<Longrightarrow> allTypes s v \<noteq> None"
proof (induction als arbitrary: s)
  case Nil
  then show ?case by simp
next
  case (Cons kv als)
  obtain k0 v0 where kv: "kv = (k0, v0)" by (cases kv)
  from Cons.prems(1) obtain t where t: "allTypes s v0 = Some t"
    and r: "extra_alias_loop als (s\<lparr>sctypeDict := (sctypeDict s)(k0 \<mapsto> t)\<rparr>) = Inr s'"
    by (auto simp: kv split: option.splits)
  show ?case
  proof (cases "(k, v) = (k0, v0)")
    case True
    with t show ?thesis by simp
  next
    case False
    with Cons.prems(2) have m: "(k, v) \<in> set als" by (auto simp: kv)
    with Cons.IH [OF r m] show ?thesis by simp
  qed
qed


lemma digit_mem: "d < 10 \<Longrightarrow> digit d \<in> set ''0123456789''"
  unfolding digit_def by (rule nth_mem) simp

lemma str_last: "str n \<noteq> [] \<and> last (str n) = digit (n mod 10)"
  by (simp add: str.simps [of n])

lemma str_ends_in_digit: "ends_in_digit (str n)"
  unfolding ends_in_digit_def using str_last [of n] digit_mem [of "n mod 10"]
  by (simp del: set_simps)

lemma extended_prec_name_ends_in_digit:
  "ends_in_digit (extended_prec_name itemsize b t)"
  using str_ends_in_digit [of "itemsize t * 8"]
  by (simp add: extended_prec_name_def ends_in_digit_def Let_def)

lemma extended_prec_name_neq:
  "extended_prec_name itemsize False l \<noteq> extended_prec_name itemsize True c"
  by (simp add: extended_prec_name_def Let_def)

lemma extended_prec_name_not_longdouble:
  "extended_prec_name itemsize b t \<noteq> ''longdouble''"
  "extended_prec_name itemsize b t \<noteq> ''clongdouble''"
  using extended_prec_name_ends_in_digit [of itemsize b t]
  by (auto simp: ends_in_digit_def)

lemma abstract_type_names_no_digit: "\<forall>k\<in>set abstract_type_names. \<not> ends_in_digit k"
  by (simp add: abstract_type_names_def ends_in_digit_def)

lemma getattr_not_digit: "ends_in_digit k \<Longrightarrow> getattr ma k = None"
  using getattr_dom [of ma k] abstract_type_names_no_digit by blast

lemma extra_aliases_no_digit: "\<forall>k\<in>fst ` set extra_aliases. \<not> ends_in_digit k"
  by (simp add: extra_aliases_def ends_in_digit_def)

lemma extra_aliases_not_digit:
  assumes "ends_in_digit k"
  shows "map_of extra_aliases k = None"
proof -
  have "k \<notin> fst ` set extra_aliases"
    using assms extra_aliases_no_digit by blast
  then show ?thesis using map_of_eq_None_iff [of extra_aliases k] by blast
qed

lemma extended_loop_Cons:
  "allTypes s full_name = Some l \<Longrightarrow>
   extended_loop itemsize ((b, full_name) # rest) s =
     extended_loop itemsize rest
       (if allTypes s (extended_prec_name itemsize b l) = None
        then s\<lparr>sctypeDict := (sctypeDict s)(extended_prec_name itemsize b l \<mapsto> l),
               allTypes := (allTypes s)(extended_prec_name itemsize b l \<mapsto> l)\<rparr>
        else s)"
  by (simp add: Let_def)

lemma extended_loop_KeyError:
  "allTypes s full_name = None \<Longrightarrow>
   extended_loop itemsize ((b, full_name) # rest) s = Inl KeyError"
  by simp

lemma extended_loop_result:
  assumes "extended_loop itemsize longdoubles s = Inr T"
  shows "\<exists>l c. allTypes s ''longdouble'' = Some l \<and> allTypes s ''clongdouble'' = Some c \<and>
           allTypes T = [extended_prec_name itemsize False l \<mapsto> l,
                         extended_prec_name itemsize True c \<mapsto> c] ++ allTypes s \<and>
           sctypeDict T =
             (\<lambda>k. if k = extended_prec_name itemsize False l \<and> allTypes s k = None then Some l
                  else if k = extended_prec_name itemsize True c \<and> allTypes s k = None then Some c
                  else sctypeDict s k) \<and>
           c_names_dict T = c_names_dict s"
proof -
  obtain l where l: "allTypes s ''longdouble'' = Some l"
    using assms by (cases "allTypes s ''longdouble''") (auto simp: longdoubles_def)
  define nf where "nf = extended_prec_name itemsize False l"
  define s' where "s' = (if allTypes s nf = None
                 then s\<lparr>sctypeDict := (sctypeDict s)(nf \<mapsto> l),
                        allTypes := (allTypes s)(nf \<mapsto> l)\<rparr>
                 else s)"
  have nf1: "nf \<noteq> ''clongdouble''" 
    unfolding nf_def by (rule extended_prec_name_not_longdouble)
  have r: "extended_loop itemsize [(True, ''clongdouble'')] s' = Inr T"
    using assms unfolding longdoubles_def extended_loop_Cons [OF l] nf_def s'_def .
  have cl: "allTypes s' ''clongdouble'' = allTypes s ''clongdouble''"
    using nf1 by (simp add: s'_def)
  obtain c where c: "allTypes s' ''clongdouble'' = Some c"
    using r by (cases "allTypes s' ''clongdouble''") auto
  define nc where "nc = extended_prec_name itemsize True c"
  have ne: "nf \<noteq> nc" unfolding nf_def nc_def by (rule extended_prec_name_neq)
  have T: "T = (if allTypes s' nc = None
                 then s'\<lparr>sctypeDict := (sctypeDict s')(nc \<mapsto> c),
                        allTypes := (allTypes s')(nc \<mapsto> c)\<rparr>
                 else s')"
    using r unfolding extended_loop_Cons [OF c] nc_def by simp
  have s'a: "allTypes s' = (\<lambda>k. if k = nf \<and> allTypes s nf = None then Some l else allTypes s k)"
    by (auto simp: s'_def fun_eq_iff)
  have s's: "sctypeDict s' = (\<lambda>k. if k = nf \<and> allTypes s nf = None then Some l else sctypeDict s k)"
    by (auto simp: s'_def fun_eq_iff)
  have Ta: "allTypes T = (\<lambda>k. if k = nc \<and> allTypes s' nc = None then Some c else allTypes s' k)"
    by (auto simp: T fun_eq_iff)
  have Ts: "sctypeDict T = (\<lambda>k. if k = nc \<and> allTypes s' nc = None then Some c else sctypeDict s' k)"
    by (auto simp: T fun_eq_iff)
  have a: "allTypes T = [nf \<mapsto> l, nc \<mapsto> c] ++ allTypes s"
    unfolding Ta s'a using ne by (auto simp: fun_eq_iff map_add_def split: option.splits)
  have b: "sctypeDict T =
             (\<lambda>k. if k = nf \<and> allTypes s k = None then Some l
                  else if k = nc \<and> allTypes s k = None then Some c
                  else sctypeDict s k)"
    unfolding Ts s's s'a using ne by (auto simp: fun_eq_iff)
  have d: "c_names_dict T = c_names_dict s"
    by (simp add: T s'_def)
  from l c cl a b d show ?thesis
    unfolding nf_def nc_def by auto
qed


lemma after_registry_result:
  assumes "distinct (map fst typeinfo)"
  shows "\<exists>s. after_registry ma typeinfo = Inr s \<and>
             allTypes s = getattr ma ++ registered typeinfo \<and>
             sctypeDict s = registered typeinfo \<and>
             c_names_dict s = (\<lambda>n. map_of typeinfo (''NPY_'' @ n))"
proof -
  obtain s1 where s1: "after_abstract ma = Inr s1" "allTypes s1 = getattr ma"
      "sctypeDict s1 = Map.empty" "c_names_dict s1 = Map.empty"
    using after_abstract_result [of ma] by blast
  have r: "after_registry ma typeinfo = Inr (registry_loop typeinfo s1)"
    by (simp add: after_registry_def s1)
  have a: "allTypes (registry_loop typeinfo s1) = getattr ma ++ registered typeinfo"
    by (auto simp: registry_loop_allTypes [OF assms] s1 fun_eq_iff map_add_def registered_def
          split: option.splits)
  have b: "sctypeDict (registry_loop typeinfo s1) = registered typeinfo"
    by (auto simp: registry_loop_sctypeDict [OF assms] s1 fun_eq_iff registered_def
          split: option.splits)
  have c: "c_names_dict (registry_loop typeinfo s1) = (\<lambda>n. map_of typeinfo (''NPY_'' @ n))"
    by (auto simp: registry_loop_c_names_dict [OF assms] s1 fun_eq_iff split: option.splits)
  from r a b c show ?thesis by blast
qed

lemma aliases_distinct: "distinct (map fst aliases)"
  by (simp add: aliases_def)

lemma aliases_disjoint: "fst ` set aliases \<inter> snd ` set aliases = {}"
  by (simp add: aliases_def)

lemma aliases_targets: "\<forall>v\<in>snd ` set aliases. getattr ma v = None"
  by (simp add: aliases_def getattr_def)

lemma extra_aliases_distinct: "distinct (map fst extra_aliases)"
  by (simp add: extra_aliases_def)

lemma extra_aliases_targets:
  "\<forall>v\<in>snd ` set extra_aliases. getattr ma v = None \<and> map_of aliases v = None"
  by (simp add: extra_aliases_def aliases_def getattr_def)

lemma longdouble_plain:
  "getattr ma ''longdouble'' = None" "map_of aliases ''longdouble'' = None"
  "getattr ma ''clongdouble'' = None" "map_of aliases ''clongdouble'' = None"
  by (simp_all add: aliases_def getattr_def)

lemma after_aliases_result:
  assumes "after_aliases ma typeinfo = Inr s" and "distinct (map fst typeinfo)"
  shows "allTypes s = getattr ma ++ registered typeinfo ++ (registered typeinfo \<circ>\<^sub>m map_of aliases)"
    and "sctypeDict s = registered typeinfo ++ (registered typeinfo \<circ>\<^sub>m map_of aliases)"
    and "c_names_dict s = (\<lambda>n. map_of typeinfo (''NPY_'' @ n))"
    and "\<forall>v\<in>snd ` set aliases. registered typeinfo v \<noteq> None"
proof -
  obtain s2 where s2: "after_registry ma typeinfo = Inr s2"
      "allTypes s2 = getattr ma ++ registered typeinfo"
      "sctypeDict s2 = registered typeinfo"
      "c_names_dict s2 = (\<lambda>n. map_of typeinfo (''NPY_'' @ n))"
    using after_registry_result [OF assms(2), of ma] by blast
  from assms(1) have l: "alias_loop aliases s2 = Inr s"
    by (simp add: after_aliases_def s2)
  note res = alias_loop_result [OF l aliases_distinct aliases_disjoint]
  have tgt: "allTypes s2 v = registered typeinfo v \<and> registered typeinfo v \<noteq> None"
    if "(k, v) \<in> set aliases" for k v
  proof -
    from that have "v \<in> snd ` set aliases" by force
    then have "getattr ma v = None" by (rule aliases_targets [rule_format])
    then have "allTypes s2 v = registered typeinfo v"
      by (simp add: s2 map_add_def split: option.splits)
    with alias_loop_targets [OF l aliases_disjoint that] show ?thesis by simp
  qed
  show "\<forall>v\<in>snd ` set aliases. registered typeinfo v \<noteq> None"
    using tgt by force
  have m: "allTypes s2 v = registered typeinfo v \<and> registered typeinfo v \<noteq> None"
    if "map_of aliases k = Some v" for k v
    using tgt map_of_SomeD [OF that] by blast
  show "allTypes s = getattr ma ++ registered typeinfo ++ (registered typeinfo \<circ>\<^sub>m map_of aliases)"
  proof
    fix k
    show "allTypes s k =
      (getattr ma ++ registered typeinfo ++ (registered typeinfo \<circ>\<^sub>m map_of aliases)) k"
    proof (cases "map_of aliases k")
      case None
      then show ?thesis using res by (simp add: s2 map_add_def map_comp_def)
    next
      case (Some v)
      with m [OF Some] show ?thesis using res by (auto simp: map_add_def map_comp_def)
    qed
  qed
  show "sctypeDict s = registered typeinfo ++ (registered typeinfo \<circ>\<^sub>m map_of aliases)"
  proof
    fix k
    show "sctypeDict s k = (registered typeinfo ++ (registered typeinfo \<circ>\<^sub>m map_of aliases)) k"
    proof (cases "map_of aliases k")
      case None
      then show ?thesis using res by (simp add: s2 map_add_def map_comp_def)
    next
      case (Some v)
      with m [OF Some] show ?thesis using res by (auto simp: map_add_def map_comp_def)
    qed
  qed
  show "c_names_dict s = (\<lambda>n. map_of typeinfo (''NPY_'' @ n))"
    using res by (simp add: s2)
qed


lemma after_extra_aliases_result:
  assumes "after_extra_aliases ma typeinfo = Inr s" and "distinct (map fst typeinfo)"
  shows "allTypes s = getattr ma ++ registered typeinfo ++ (registered typeinfo \<circ>\<^sub>m map_of aliases)"
    and "sctypeDict s = registered typeinfo ++ (registered typeinfo \<circ>\<^sub>m map_of aliases) ++
           (registered typeinfo \<circ>\<^sub>m map_of extra_aliases)"
    and "c_names_dict s = (\<lambda>n. map_of typeinfo (''NPY_'' @ n))"
    and "\<forall>v\<in>snd ` set aliases \<union> snd ` set extra_aliases. registered typeinfo v \<noteq> None"
proof -
  from assms(1) obtain s3 where s3: "after_aliases ma typeinfo = Inr s3"
    and l: "extra_alias_loop extra_aliases s3 = Inr s"
    by (auto simp: after_extra_aliases_def split: sum.splits)
  note r3 = after_aliases_result [OF s3 assms(2)]
  note res = extra_alias_loop_result [OF l extra_aliases_distinct]
  have tgt: "allTypes s3 v = registered typeinfo v \<and> registered typeinfo v \<noteq> None"
    if "(k, v) \<in> set extra_aliases" for k v
  proof -
    from that have "v \<in> snd ` set extra_aliases" by force
    then have "getattr ma v = None \<and> map_of aliases v = None"
      by (rule extra_aliases_targets [rule_format])
    then have "allTypes s3 v = registered typeinfo v"
      by (simp add: r3(1) map_add_def map_comp_def split: option.splits)
    with extra_alias_loop_targets [OF l that] show ?thesis by simp
  qed
  show "\<forall>v\<in>snd ` set aliases \<union> snd ` set extra_aliases. registered typeinfo v \<noteq> None"
    using tgt r3(4) by force
  have m: "allTypes s3 v = registered typeinfo v \<and> registered typeinfo v \<noteq> None"
    if "map_of extra_aliases k = Some v" for k v
    using tgt map_of_SomeD [OF that] by blast
  show "allTypes s = getattr ma ++ registered typeinfo ++ (registered typeinfo \<circ>\<^sub>m map_of aliases)"
    using res r3(1) by simp
  show "sctypeDict s = registered typeinfo ++ (registered typeinfo \<circ>\<^sub>m map_of aliases) ++
           (registered typeinfo \<circ>\<^sub>m map_of extra_aliases)"
  proof
    fix k
    show "sctypeDict s k = (registered typeinfo ++ (registered typeinfo \<circ>\<^sub>m map_of aliases) ++
           (registered typeinfo \<circ>\<^sub>m map_of extra_aliases)) k"
    proof (cases "map_of extra_aliases k")
      case None
      then show ?thesis using res by (simp add: r3(2) map_add_def map_comp_def)
    next
      case (Some v)
      with m [OF Some] show ?thesis using res by (auto simp: map_add_def map_comp_def)
    qed
  qed
  show "c_names_dict s = (\<lambda>n. map_of typeinfo (''NPY_'' @ n))"
    using res r3(3) by simp
qed

lemma build_tables_result:
  assumes "build_tables ma itemsize typeinfo = Inr T" and "distinct (map fst typeinfo)"
  shows "allTypes T = extended itemsize typeinfo ++ getattr ma ++ registered typeinfo ++
           (registered typeinfo \<circ>\<^sub>m map_of aliases)"
    and "sctypeDict T = extended itemsize typeinfo ++ registered typeinfo ++
           (registered typeinfo \<circ>\<^sub>m map_of aliases) ++
           (registered typeinfo \<circ>\<^sub>m map_of extra_aliases)"
    and "c_names_dict T = (\<lambda>n. map_of typeinfo (''NPY_'' @ n))"
    and "\<forall>v\<in>snd ` set aliases \<union> snd ` set extra_aliases \<union> snd ` set longdoubles.
           registered typeinfo v \<noteq> None"
proof -
  from assms(1) obtain s4 where s4: "after_extra_aliases ma typeinfo = Inr s4"
    and l: "extended_loop itemsize longdoubles s4 = Inr T"
    by (auto simp: build_tables_def split: sum.splits)
  note r4 = after_extra_aliases_result [OF s4 assms(2)]
  from extended_loop_result [OF l] obtain l c where
    ld: "allTypes s4 ''longdouble'' = Some l" and cld: "allTypes s4 ''clongdouble'' = Some c"
    and a: "allTypes T = [extended_prec_name itemsize False l \<mapsto> l,
                         extended_prec_name itemsize True c \<mapsto> c] ++ allTypes s4"
    and b: "sctypeDict T =
             (\<lambda>k. if k = extended_prec_name itemsize False l \<and> allTypes s4 k = None then Some l
                  else if k = extended_prec_name itemsize True c \<and> allTypes s4 k = None then Some c
                  else sctypeDict s4 k)"
    and d: "c_names_dict T = c_names_dict s4"
    by blast
  have rl: "registered typeinfo ''longdouble'' = Some l"
    using ld by (simp add: r4(1) map_add_def map_comp_def longdouble_plain split: option.splits)
  have rc: "registered typeinfo ''clongdouble'' = Some c"
    using cld by (simp add: r4(1) map_add_def map_comp_def longdouble_plain split: option.splits)
  have e: "extended itemsize typeinfo = [extended_prec_name itemsize False l \<mapsto> l,
                         extended_prec_name itemsize True c \<mapsto> c]"
    by (simp add: extended_def rl rc)
  show "\<forall>v\<in>snd ` set aliases \<union> snd ` set extra_aliases \<union> snd ` set longdoubles.
           registered typeinfo v \<noteq> None"
    using r4(4) rl rc by (auto simp: longdoubles_def)
  show "allTypes T = extended itemsize typeinfo ++ getattr ma ++ registered typeinfo ++
           (registered typeinfo \<circ>\<^sub>m map_of aliases)"
    by (simp only: a e r4(1) map_add_assoc)
  show "c_names_dict T = (\<lambda>n. map_of typeinfo (''NPY_'' @ n))"
    using d r4(3) by simp
  have same: "allTypes s4 k = sctypeDict s4 k" if "ends_in_digit k" for k
    using getattr_not_digit [OF that, of ma] extra_aliases_not_digit [OF that]
    by (simp add: r4(1) r4(2) map_add_def map_comp_def split: option.splits)
  have "sctypeDict T = extended itemsize typeinfo ++ sctypeDict s4"
  proof
    fix k
    show "sctypeDict T k = (extended itemsize typeinfo ++ sctypeDict s4) k"
      using same [of "extended_prec_name itemsize False l"]
        same [of "extended_prec_name itemsize True c"]
        extended_prec_name_ends_in_digit [of itemsize False l]
        extended_prec_name_ends_in_digit [of itemsize True c]
        extended_prec_name_neq [of itemsize l c]
      unfolding b e by (auto simp: map_add_def split: option.splits)
  qed
  then show "sctypeDict T = extended itemsize typeinfo ++ registered typeinfo ++
           (registered typeinfo \<circ>\<^sub>m map_of aliases) ++
           (registered typeinfo \<circ>\<^sub>m map_of extra_aliases)"
    by (simp only: r4(2) map_add_assoc)
qed

subsection \<open>The loops of the type groups\<close>

lemma group_loop_eq:
  "group_loop issubclass t gs s =
     (case group_of issubclass t gs of
        None \<Rightarrow> Inr s
      | Some g \<Rightarrow> (case s g of None \<Rightarrow> Inl KeyError | Some l \<Rightarrow> Inr (s(g \<mapsto> l @ [t]))))"
  by (induction gs) auto

lemma group_of_mem: "group_of issubclass t gs = Some g \<Longrightarrow> g \<in> fst ` set gs"
  by (induction gs) (auto split: if_splits)

lemma group_of_type_groups:
  "group_of issubclass t (type_groups ma) =
     (if issubclass t (signedinteger ma) then Some ''int''
      else if issubclass t (unsignedinteger ma) then Some ''uint''
      else if issubclass t (floating ma) then Some ''float''
      else if issubclass t (complexfloating ma) then Some ''complex''
      else if issubclass t (generic ma) then Some ''others''
      else None)"
  by (simp add: type_groups_def)

lemma type_groups_names: "fst ` set (type_groups ma) = set group_names"
  by (auto simp: type_groups_def group_names_def)

lemma members_Nil [simp]: "members ma issubclass [] g = []"
  by (simp add: members_def)

lemma members_Cons:
  "members ma issubclass (v # vs) g =
     (if kind v \<notin> set [''M'', ''m''] \<and> group_of issubclass (type v) (type_groups ma) = Some g
      then type v # members ma issubclass vs g else members ma issubclass vs g)"
  by (simp add: members_def)

lemma sctypes_loop_result:
  "fst ` set (type_groups ma) \<subseteq> dom s \<Longrightarrow>
   sctypes_loop ma issubclass vs s =
     Inr (\<lambda>g. map_option (\<lambda>l. l @ members ma issubclass vs g) (s g))"
proof (induction vs arbitrary: s)
  case Nil
  then show ?case by (simp add: fun_eq_iff option.map_ident)
next
  case (Cons v vs)
  show ?case
  proof (cases "kind v \<in> set [''M'', ''m'']")
    case True
    then have "sctypes_loop ma issubclass (v # vs) s = sctypes_loop ma issubclass vs s"
      by simp
    with True Cons.IH [OF Cons.prems] show ?thesis by (simp add: members_Cons)
  next
    case False
    show ?thesis
    proof (cases "group_of issubclass (type v) (type_groups ma)")
      case None
      then have "sctypes_loop ma issubclass (v # vs) s = sctypes_loop ma issubclass vs s"
        using False by (simp add: group_loop_eq)
      with None Cons.IH [OF Cons.prems] show ?thesis by (simp add: members_Cons)
    next
      case (Some g)
      have "g \<in> fst ` set (type_groups ma)" by (rule group_of_mem [OF Some])
      with Cons.prems have "g \<in> dom s" by (rule subsetD)
      then obtain l where l: "s g = Some l" by blast
      define s' where "s' = s(g \<mapsto> l @ [type v])"
      have "dom s' = insert g (dom s)" by (simp add: s'_def)
      with Cons.prems have d: "fst ` set (type_groups ma) \<subseteq> dom s'" by blast
      have step: "sctypes_loop ma issubclass (v # vs) s = sctypes_loop ma issubclass vs s'"
        using False Some l by (simp add: group_loop_eq s'_def)
      have "map_option (\<lambda>l. l @ members ma issubclass vs g') (s' g') =
            map_option (\<lambda>l. l @ members ma issubclass (v # vs) g') (s g')" for g'
      proof (cases "g' = g")
        case True
        then show ?thesis using False Some l by (simp add: s'_def members_Cons)
      next
        case ne: False
        then have "members ma issubclass (v # vs) g' = members ma issubclass vs g'"
          using Some by (simp add: members_Cons)
        with ne show ?thesis by (simp add: s'_def)
      qed
      then have "(\<lambda>g'. map_option (\<lambda>l. l @ members ma issubclass vs g') (s' g')) =
            (\<lambda>g'. map_option (\<lambda>l. l @ members ma issubclass (v # vs) g') (s g'))"
        by (rule ext)
      with Cons.IH [OF d] step show ?thesis by simp
    qed
  qed
qed

lemma classified_result:
  "classified ma issubclass vs =
     Inr (\<lambda>g. if g \<in> set group_names then Some (members ma issubclass vs g) else None)"
proof -
  have d: "fst ` set (type_groups ma) \<subseteq> dom (empty_sctypes :: 'a sctypes)"
    by (simp add: type_groups_def empty_sctypes_def)
  have "(\<lambda>g. map_option (\<lambda>l. l @ members ma issubclass vs g) ((empty_sctypes :: 'a sctypes) g)) =
        (\<lambda>g. if g \<in> set group_names then Some (members ma issubclass vs g) else None)"
    by (rule ext) (simp add: empty_sctypes_def group_names_def)
  with sctypes_loop_result [OF d] show ?thesis by (simp add: classified_def)
qed

lemma build_sctypes_result:
  "build_sctypes ma issubclass itemsize vs =
     Inr (\<lambda>g. if g \<in> set group_names
              then Some (sort_key itemsize (members ma issubclass vs g)) else None)"
  by (simp add: build_sctypes_def classified_result sort_groups_def fun_eq_iff)

lemma script_Inr:
  "script ma issubclass itemsize typeinfo vs = Inr (T, S) \<longleftrightarrow>
     build_tables ma itemsize typeinfo = Inr T \<and>
     build_sctypes ma issubclass itemsize vs = Inr S"
  by (auto simp: script_def split: sum.splits)

subsection \<open>The example runs\<close>

lemma run_collapse: "\<not> isl r \<Longrightarrow> r = Inr (tables_of r, sctypes_of r)"
  by (cases r) (simp_all add: tables_of_def sctypes_of_def)

lemma ex_run_ok: "\<not> isl ex_run"
  unfolding ex_run_def by code_simp

lemma odd_run_ok: "\<not> isl odd_run"
  unfolding odd_run_def by code_simp

lemma narrow_run_ok: "\<not> isl narrow_run"
  unfolding narrow_run_def by code_simp

lemma ex_script:
  "script ex_ma ex_issubclass ex_itemsize ex_typeinfo ex_values =
     Inr (tables_of ex_run, sctypes_of ex_run)"
  using run_collapse [OF ex_run_ok] by (simp add: ex_run_def)

lemma odd_script:
  "script ex_ma ex_issubclass ex_itemsize odd_typeinfo odd_values =
     Inr (tables_of odd_run, sctypes_of odd_run)"
  using run_collapse [OF odd_run_ok] by (simp add: odd_run_def)


lemma ex_distinct: "distinct (map fst ex_typeinfo)"
  by code_simp

lemma odd_distinct: "distinct (map fst odd_typeinfo)"
  by code_simp

subsection \<open>The tables by key\<close>

lemma sctypeDict_lookup:
  assumes "build_tables ma itemsize typeinfo = Inr T" and "distinct (map fst typeinfo)"
  shows "sctypeDict T k =
     (case map_of extra_aliases k of
        Some v \<Rightarrow> registered typeinfo v
      | None \<Rightarrow>
          (case map_of aliases k of
             Some v \<Rightarrow> registered typeinfo v
           | None \<Rightarrow>
               (case registered typeinfo k of
                  Some t \<Rightarrow> Some t
                | None \<Rightarrow> extended itemsize typeinfo k)))"
proof -
  note r = build_tables_result [OF assms]
  have e: "registered typeinfo v \<noteq> None" if "map_of extra_aliases k = Some v" for v
  proof -
    from map_of_SomeD [OF that] have "v \<in> snd ` set extra_aliases" by force
    with r(4) show ?thesis by blast
  qed
  have a: "registered typeinfo v \<noteq> None" if "map_of aliases k = Some v" for v
  proof -
    from map_of_SomeD [OF that] have "v \<in> snd ` set aliases" by force
    with r(4) show ?thesis by blast
  qed
  show ?thesis
    using e a by (auto simp: r(2) map_add_def map_comp_def split: option.splits)
qed

lemma allTypes_lookup:
  assumes "build_tables ma itemsize typeinfo = Inr T" and "distinct (map fst typeinfo)"
  shows "allTypes T k =
     (case map_of aliases k of
        Some v \<Rightarrow> registered typeinfo v
      | None \<Rightarrow>
          (case registered typeinfo k of
             Some t \<Rightarrow> Some t
           | None \<Rightarrow>
               (case getattr ma k of
                  Some t \<Rightarrow> Some t
                | None \<Rightarrow> extended itemsize typeinfo k)))"
proof -
  note r = build_tables_result [OF assms]
  have a: "registered typeinfo v \<noteq> None" if "map_of aliases k = Some v" for v
  proof -
    from map_of_SomeD [OF that] have "v \<in> snd ` set aliases" by force
    with r(4) show ?thesis by blast
  qed
  show ?thesis
    using a by (auto simp: r(1) map_add_def map_comp_def split: option.splits)
qed

lemma extended_Some:
  "extended itemsize typeinfo k = Some t \<Longrightarrow>
   \<exists>b l. k = extended_prec_name itemsize b l \<and>
         registered typeinfo (if b then ''clongdouble'' else ''longdouble'') = Some t \<and> l = t"
  by (auto simp: extended_def split: option.splits if_splits)

lemma extended_digit: "extended itemsize typeinfo k = Some t \<Longrightarrow> ends_in_digit k"
  using extended_Some [of itemsize typeinfo k t] extended_prec_name_ends_in_digit by metis

lemma extended_prec_name_no_prefix: "\<not> startswith (extended_prec_name itemsize b l) ''NPY_''"
  by (simp add: extended_prec_name_def startswith_def Let_def)

lemma prefix_plain:
  assumes "startswith k ''NPY_''"
  shows "map_of aliases k = None" and "map_of extra_aliases k = None"
    and "getattr ma k = None" and "extended itemsize typeinfo k = None"
    and "registered typeinfo k = None"
proof -
  have "\<forall>k\<in>fst ` set aliases. \<not> startswith k ''NPY_''"
    by (simp add: aliases_def startswith_def)
  with assms have "k \<notin> fst ` set aliases" by blast
  then show "map_of aliases k = None" using map_of_eq_None_iff [of aliases k] by blast
  have "\<forall>k\<in>fst ` set extra_aliases. \<not> startswith k ''NPY_''"
    by (simp add: extra_aliases_def startswith_def)
  with assms have "k \<notin> fst ` set extra_aliases" by blast
  then show "map_of extra_aliases k = None"
    using map_of_eq_None_iff [of extra_aliases k] by blast
  have "\<forall>k\<in>set abstract_type_names. \<not> startswith k ''NPY_''"
    by (simp add: abstract_type_names_def startswith_def)
  with assms have "k \<notin> set abstract_type_names" by blast
  then show "getattr ma k = None" using getattr_dom [of ma k] by blast
  show "extended itemsize typeinfo k = None"
  proof (cases "extended itemsize typeinfo k")
    case (Some t)
    from extended_Some [OF Some] assms extended_prec_name_no_prefix [of itemsize]
    show ?thesis by blast
  qed simp
  show "registered typeinfo k = None" using assms by (simp add: registered_def)
qed

lemma alias_keys_disjoint: "fst ` set aliases \<inter> fst ` set extra_aliases = {}"
  by (simp add: aliases_def extra_aliases_def)

lemma abstract_not_alias:
  "set abstract_type_names \<inter> (fst ` set aliases \<union> fst ` set extra_aliases) = {}"
  by (simp add: abstract_type_names_def aliases_def extra_aliases_def)

lemma map_of_None_notin: "map_of xs k = None \<longleftrightarrow> k \<notin> fst ` set xs"
  by (rule map_of_eq_None_iff)

lemma aliases_no_digit: "\<forall>k\<in>fst ` set aliases. \<not> ends_in_digit k"
  by (simp add: aliases_def ends_in_digit_def)

lemma extended_None: "\<not> ends_in_digit k \<Longrightarrow> extended itemsize typeinfo k = None"
  using extended_digit [of itemsize typeinfo k] by (cases "extended itemsize typeinfo k") auto

lemma registered_entry:
  "distinct (map fst typeinfo) \<Longrightarrow> (k, v) \<in> set typeinfo \<Longrightarrow> \<not> startswith k ''NPY_'' \<Longrightarrow>
   registered typeinfo k = Some (type v)"
  by (simp add: registered_def)




subsection \<open>When the script returns\<close>

lemma alias_loop_succeeds:
  "\<forall>v\<in>snd ` set als. allTypes s v \<noteq> None \<Longrightarrow> \<exists>s'. alias_loop als s = Inr s'"
proof (induction als arbitrary: s)
  case Nil
  then show ?case by simp
next
  case (Cons kv als)
  obtain k0 v0 where kv: "kv = (k0, v0)" by (cases kv)
  from Cons.prems obtain t where t: "allTypes s v0 = Some t" by (auto simp: kv)
  let ?s = "s\<lparr>sctypeDict := (sctypeDict s)(k0 \<mapsto> t), allTypes := (allTypes s)(k0 \<mapsto> t)\<rparr>"
  from Cons.prems have "\<forall>v\<in>snd ` set als. allTypes ?s v \<noteq> None" by (auto simp: kv)
  from Cons.IH [OF this] t show ?case by (simp add: kv)
qed

lemma extra_alias_loop_succeeds:
  "\<forall>v\<in>snd ` set als. allTypes s v \<noteq> None \<Longrightarrow> \<exists>s'. extra_alias_loop als s = Inr s'"
proof (induction als arbitrary: s)
  case Nil
  then show ?case by simp
next
  case (Cons kv als)
  obtain k0 v0 where kv: "kv = (k0, v0)" by (cases kv)
  from Cons.prems obtain t where t: "allTypes s v0 = Some t" by (auto simp: kv)
  let ?s = "s\<lparr>sctypeDict := (sctypeDict s)(k0 \<mapsto> t)\<rparr>"
  from Cons.prems have "\<forall>v\<in>snd ` set als. allTypes ?s v \<noteq> None" by (auto simp: kv)
  from Cons.IH [OF this] t show ?case by (simp add: kv)
qed

lemma extended_loop_succeeds:
  assumes "allTypes s ''longdouble'' \<noteq> None" and "allTypes s ''clongdouble'' \<noteq> None"
  shows "\<exists>T. extended_loop itemsize longdoubles s = Inr T"
proof -
  from assms obtain l c where l: "allTypes s ''longdouble'' = Some l"
    and c: "allTypes s ''clongdouble'' = Some c" by blast
  define s' where "s' = (if allTypes s (extended_prec_name itemsize False l) = None
        then s\<lparr>sctypeDict := (sctypeDict s)(extended_prec_name itemsize False l \<mapsto> l),
               allTypes := (allTypes s)(extended_prec_name itemsize False l \<mapsto> l)\<rparr>
        else s)"
  have "allTypes s' ''clongdouble'' = Some c"
    using c extended_prec_name_not_longdouble(2) [of itemsize False l]
    by (simp add: s'_def)
  then have "\<exists>T. extended_loop itemsize [(True, ''clongdouble'')] s' = Inr T"
    by (simp add: Let_def)
  then show ?thesis
    unfolding longdoubles_def extended_loop_Cons [OF l] s'_def .
qed

lemma script_succeeds:
  assumes "distinct (map fst typeinfo)"
    and "\<forall>v\<in>snd ` set aliases \<union> snd ` set extra_aliases \<union> snd ` set longdoubles.
           registered typeinfo v \<noteq> None"
  shows "\<exists>T S. script ma issubclass itemsize typeinfo vs = Inr (T, S)"
proof -
  obtain s2 where s2: "after_registry ma typeinfo = Inr s2"
      "allTypes s2 = getattr ma ++ registered typeinfo"
    using after_registry_result [OF assms(1), of ma] by blast
  have t2: "allTypes s2 v \<noteq> None" if "registered typeinfo v \<noteq> None" for v
    using that by (auto simp: s2(2) map_add_def split: option.splits)
  then have "\<forall>v\<in>snd ` set aliases. allTypes s2 v \<noteq> None"
    using assms(2) by simp
  from alias_loop_succeeds [OF this] obtain s3 where l3: "alias_loop aliases s2 = Inr s3"
    by blast
  then have s3: "after_aliases ma typeinfo = Inr s3" by (simp add: after_aliases_def s2)
  note r3 = after_aliases_result [OF s3 assms(1)]
  have t3: "allTypes s3 v \<noteq> None" if "registered typeinfo v \<noteq> None" for v
    using that by (auto simp: r3(1) map_add_def map_comp_def split: option.splits)
  then have "\<forall>v\<in>snd ` set extra_aliases. allTypes s3 v \<noteq> None"
    using assms(2) by simp
  from extra_alias_loop_succeeds [OF this] obtain s4
    where l4: "extra_alias_loop extra_aliases s3 = Inr s4" by blast
  then have s4: "after_extra_aliases ma typeinfo = Inr s4"
    by (simp add: after_extra_aliases_def s3)
  have a4: "allTypes s4 = allTypes s3"
    using extra_alias_loop_result [OF l4 extra_aliases_distinct] by simp
  from assms(2) have "registered typeinfo ''longdouble'' \<noteq> None"
    "registered typeinfo ''clongdouble'' \<noteq> None"
    by (simp_all add: longdoubles_def)
  then have "allTypes s4 ''longdouble'' \<noteq> None" "allTypes s4 ''clongdouble'' \<noteq> None"
    by (simp_all add: a4 t3)
  from extended_loop_succeeds [OF this] obtain T
    where "extended_loop itemsize longdoubles s4 = Inr T" by blast
  then have "build_tables ma itemsize typeinfo = Inr T"
    by (simp add: build_tables_def s4)
  then show ?thesis by (simp add: script_Inr build_sctypes_result)
qed






lemma linux_iterates: "iterates linux_same ex_values linux_typeinfo"
  by code_simp

lemma linux_run_ok: "\<not> isl linux_run"
  unfolding linux_run_def by code_simp



lemma abstract_no_prefix: "k \<in> set abstract_type_names \<Longrightarrow> \<not> startswith k ''NPY_''"
  by (auto simp: abstract_type_names_def startswith_def)

lemma registered_absent: "k \<notin> fst ` set typeinfo \<Longrightarrow> registered typeinfo k = None"
  by (simp add: registered_def map_of_None_notin)








section \<open>The claims\<close>

text \<open>
  Claim C4. Every entry of the registry whose name starts with \<^verbatim>\<open>NPY_\<close> is stored in
  \<^verbatim>\<open>c_names_dict\<close> under the name without the prefix, and its name is a key of
  neither \<^verbatim>\<open>sctypeDict\<close> nor \<^verbatim>\<open>allTypes\<close> when the script has run.
\<close>

theorem prefixed_entries_diverted:
  assumes "script ma issubclass itemsize typeinfo vs = Inr (T, S)"
    and "distinct (map fst typeinfo)"
    and "(k, v) \<in> set typeinfo"
    and "startswith k ''NPY_''"
  shows "c_names_dict T (drop 4 k) = Some v \<and> sctypeDict T k = None \<and> allTypes T k = None"
proof -
  from assms(1) have b: "build_tables ma itemsize typeinfo = Inr T"
    by (simp add: script_Inr)
  from assms(4) have "''NPY_'' @ drop 4 k = k" by (simp add: startswith_NPY)
  moreover from assms(2,3) have "map_of typeinfo k = Some v" by simp
  ultimately have "c_names_dict T (drop 4 k) = Some v"
    by (simp add: build_tables_result(3) [OF b assms(2)])
  moreover have "sctypeDict T k = None"
    by (simp add: sctypeDict_lookup [OF b assms(2)] prefix_plain [OF assms(4)])
  moreover have "allTypes T k = None"
    by (simp add: allTypes_lookup [OF b assms(2)] prefix_plain [OF assms(4)])
  ultimately show ?thesis by simp
qed

theorem prefixed_entries_diverted_witness:
  "script ex_ma ex_issubclass ex_itemsize ex_typeinfo ex_values =
     Inr (tables_of ex_run, sctypes_of ex_run) \<and>
   distinct (map fst ex_typeinfo) \<and>
   (''NPY_DOUBLE'', \<lparr>kind = ''f'', type = 6\<rparr>) \<in> set ex_typeinfo \<and>
   startswith ''NPY_DOUBLE'' ''NPY_'' \<and>
   c_names_dict (tables_of ex_run) ''DOUBLE'' = Some \<lparr>kind = ''f'', type = 6\<rparr> \<and>
   sctypeDict (tables_of ex_run) ''NPY_DOUBLE'' = None \<and>
   allTypes (tables_of ex_run) ''NPY_DOUBLE'' = None"
proof -
  have m: "(''NPY_DOUBLE'', \<lparr>kind = ''f'', type = 6\<rparr>) \<in> set ex_typeinfo"
    by (simp add: ex_typeinfo_def)
  have p: "startswith ''NPY_DOUBLE'' ''NPY_''"
    by (simp add: startswith_def)
  from prefixed_entries_diverted [OF ex_script ex_distinct m p] ex_script ex_distinct m p
  show ?thesis by simp
qed

text \<open>
  Claim C8. When the script has run, every type that \<^verbatim>\<open>sctypeDict\<close> maps a key to
  is also the value of some key of \<^verbatim>\<open>allTypes\<close>.
\<close>

theorem broad_types_in_narrow:
  assumes "script ma issubclass itemsize typeinfo vs = Inr (T, S)"
    and "distinct (map fst typeinfo)"
    and "sctypeDict T k = Some t"
  shows "\<exists>k'. allTypes T k' = Some t"
proof -
  from assms(1) have b: "build_tables ma itemsize typeinfo = Inr T"
    by (simp add: script_Inr)
  note sc = sctypeDict_lookup [OF b assms(2)]
  note al = allTypes_lookup [OF b assms(2)]
  show ?thesis
  proof (cases "map_of extra_aliases k")
    case (Some v)
    with assms(3) have rv: "registered typeinfo v = Some t" by (simp add: sc)
    from map_of_SomeD [OF Some] have "v \<in> snd ` set extra_aliases" by force
    then have "getattr ma v = None \<and> map_of aliases v = None"
      by (rule extra_aliases_targets [rule_format])
    then have "allTypes T v = Some t" by (simp add: al rv)
    then show ?thesis ..
  next
    case None
    show ?thesis
    proof (cases "map_of aliases k")
      case (Some v)
      with None assms(3) have "allTypes T k = Some t" by (simp add: sc al)
      then show ?thesis ..
    next
      case na: None
      show ?thesis
      proof (cases "registered typeinfo k")
        case (Some t')
        with None na assms(3) have "allTypes T k = Some t" by (simp add: sc al)
        then show ?thesis ..
      next
        case nr: None
        with None na assms(3) have e: "extended itemsize typeinfo k = Some t" by (simp add: sc)
        from getattr_not_digit [OF extended_digit [OF e]] have "getattr ma k = None" .
        with na nr e have "allTypes T k = Some t" by (simp add: al)
        then show ?thesis ..
      qed
    qed
  qed
qed

theorem broad_types_in_narrow_witness:
  "script ex_ma ex_issubclass ex_itemsize ex_typeinfo ex_values =
     Inr (tables_of ex_run, sctypes_of ex_run) \<and>
   distinct (map fst ex_typeinfo) \<and>
   sctypeDict (tables_of ex_run) ''unicode'' = Some 13 \<and>
   allTypes (tables_of ex_run) ''unicode'' = None \<and>
   (\<exists>k'. allTypes (tables_of ex_run) k' = Some 13)"
proof -
  have s: "sctypeDict (tables_of ex_run) ''unicode'' = Some 13"
    unfolding ex_run_def tables_of_def by code_simp
  have a: "allTypes (tables_of ex_run) ''unicode'' = None"
    unfolding ex_run_def tables_of_def by code_simp
  from broad_types_in_narrow [OF ex_script ex_distinct s] ex_script ex_distinct s a
  show ?thesis by simp
qed

text \<open>
  Claim C6. When the script has run, the item sizes along each list of \<^verbatim>\<open>sctypes\<close>
  never decrease, and the types of one item size stand in the order in which the loop of
  line 97 appended them: \<open>l0\<close> is the list before line 115 sorts it.
\<close>

theorem groups_sorted_stable:
  assumes "script ma issubclass itemsize typeinfo vs = Inr (T, S)"
    and "S g = Some l"
  shows "sorted (map itemsize l) \<and>
    (\<exists>s0 l0. classified ma issubclass vs = Inr s0 \<and> s0 g = Some l0 \<and>
       l0 = members ma issubclass vs g \<and>
       (\<forall>w. filter (\<lambda>t. itemsize t = w) l = filter (\<lambda>t. itemsize t = w) l0))"
proof -
  from assms(1) have "build_sctypes ma issubclass itemsize vs = Inr S"
    by (simp add: script_Inr)
  then have S: "S = (\<lambda>g. if g \<in> set group_names
                         then Some (sort_key itemsize (members ma issubclass vs g)) else None)"
    by (simp add: build_sctypes_result)
  from assms(2) have g: "g \<in> set group_names"
    and l: "l = sort_key itemsize (members ma issubclass vs g)"
    by (auto simp: S split: if_splits)
  have "sorted (map itemsize l)" by (simp add: l sorted_sort_key)
  moreover have "filter (\<lambda>t. itemsize t = w) l =
      filter (\<lambda>t. itemsize t = w) (members ma issubclass vs g)" for w
    by (simp add: l sort_key_stable)
  ultimately show ?thesis using g by (simp add: classified_result)
qed

theorem groups_sorted_stable_witness:
  "script ex_ma ex_issubclass ex_itemsize ex_typeinfo ex_values =
     Inr (tables_of ex_run, sctypes_of ex_run) \<and>
   sctypes_of ex_run ''others'' = Some [13, 12, 1, 11] \<and>
   members ex_ma ex_issubclass ex_values ''others'' = [11, 13, 1, 12] \<and>
   map ex_itemsize [13, 12, 1, 11] = [0, 0, 1, 8] \<and>
   sorted (map ex_itemsize [13, 12, 1, 11]) \<and>
   filter (\<lambda>t. ex_itemsize t = 0) [13, 12, 1, 11] =
     filter (\<lambda>t. ex_itemsize t = 0) [11, 13, 1, 12]"
proof -
  have s: "sctypes_of ex_run ''others'' = Some [13, 12, 1, 11]"
    unfolding ex_run_def sctypes_of_def by code_simp
  have m: "members ex_ma ex_issubclass ex_values ''others'' = [11, 13, 1, 12]"
    by code_simp
  have i: "map ex_itemsize [13, 12, 1, 11] = [0, 0, 1, 8]"
    by code_simp
  from groups_sorted_stable [OF ex_script s] ex_script s m i show ?thesis by simp
qed

text \<open>
  Claim C1 fails as it is stated. A registry name that is also one of the sixteen alias
  names is overwritten by the loops of lines 56 and 76: here the registry gives
  \<^verbatim>\<open>long\<close> the type 20, and \<^verbatim>\<open>sctypeDict\<close> ends with the type 2 of \<^verbatim>\<open>int_\<close>.
\<close>

theorem registry_name_overwritten_counterexample:
  "\<not> isl odd_run \<and> distinct (map fst odd_typeinfo) \<and>
   (''long'', \<lparr>kind = ''i'', type = 20\<rparr>) \<in> set odd_typeinfo \<and>
   \<not> startswith ''long'' ''NPY_'' \<and>
   sctypeDict (tables_of odd_run) ''long'' = Some 2 \<and>
   sctypeDict (tables_of odd_run) ''long'' \<noteq> Some 20"
proof -
  have "sctypeDict (tables_of odd_run) ''long'' = Some 2"
    unfolding odd_run_def tables_of_def by code_simp
  moreover have "(''long'', \<lparr>kind = ''i'', type = 20\<rparr>) \<in> set odd_typeinfo"
    by (simp add: odd_typeinfo_def)
  moreover have "\<not> startswith ''long'' ''NPY_''"
    by (simp add: startswith_def)
  ultimately show ?thesis using odd_run_ok odd_distinct by simp
qed

text \<open>
  Claim C1, amended. When the script has run, every name of the registry that does not
  start with \<^verbatim>\<open>NPY_\<close> is a key of \<^verbatim>\<open>sctypeDict\<close>. It maps to the type the
  registry gives the name, unless the name is a key of \<^verbatim>\<open>_aliases\<close> or of
  \<^verbatim>\<open>_extra_aliases\<close>: then it maps to the type the registry gives the target of
  the alias.
\<close>

theorem registry_names_in_broad:
  assumes "script ma issubclass itemsize typeinfo vs = Inr (T, S)"
    and "distinct (map fst typeinfo)"
    and "(k, v) \<in> set typeinfo"
    and "\<not> startswith k ''NPY_''"
  shows "sctypeDict T k \<noteq> None \<and>
    (k \<notin> fst ` set (aliases @ extra_aliases) \<longrightarrow> sctypeDict T k = Some (type v)) \<and>
    (\<forall>target. (k, target) \<in> set (aliases @ extra_aliases) \<longrightarrow>
       sctypeDict T k = registered typeinfo target)"
proof -
  from assms(1) have b: "build_tables ma itemsize typeinfo = Inr T"
    by (simp add: script_Inr)
  note sc = sctypeDict_lookup [OF b assms(2)]
  note r = build_tables_result(4) [OF b assms(2)]
  have rk: "registered typeinfo k = Some (type v)"
    by (rule registered_entry [OF assms(2,3,4)])
  have plain: "sctypeDict T k = Some (type v)" if "k \<notin> fst ` set (aliases @ extra_aliases)"
  proof -
    from that have "map_of aliases k = None" "map_of extra_aliases k = None"
      by (simp_all add: map_of_None_notin image_Un)
    then show ?thesis by (simp add: sc rk)
  qed
  have renamed: "sctypeDict T k = registered typeinfo target \<and> registered typeinfo target \<noteq> None"
    if "(k, target) \<in> set (aliases @ extra_aliases)" for target
  proof (cases "(k, target) \<in> set extra_aliases")
    case True
    then have m: "map_of extra_aliases k = Some target"
      using extra_aliases_distinct by simp
    from True have "target \<in> snd ` set extra_aliases" by force
    with r have "registered typeinfo target \<noteq> None" by blast
    with m show ?thesis by (simp add: sc)
  next
    case False
    with that have a: "(k, target) \<in> set aliases" by simp
    then have m: "map_of aliases k = Some target"
      using aliases_distinct by simp
    from a have "k \<in> fst ` set aliases" by force
    with alias_keys_disjoint have "k \<notin> fst ` set extra_aliases" by blast
    then have n: "map_of extra_aliases k = None" by (simp add: map_of_None_notin)
    from a have "target \<in> snd ` set aliases" by force
    with r have "registered typeinfo target \<noteq> None" by blast
    with m n show ?thesis by (simp add: sc)
  qed
  have "sctypeDict T k \<noteq> None"
  proof (cases "k \<in> fst ` set (aliases @ extra_aliases)")
    case True
    then obtain target where "(k, target) \<in> set (aliases @ extra_aliases)" by force
    from renamed [OF this] show ?thesis by simp
  next
    case False
    from plain [OF this] show ?thesis by simp
  qed
  with plain renamed show ?thesis by blast
qed

theorem registry_names_in_broad_witness:
  "script ex_ma ex_issubclass ex_itemsize ex_typeinfo ex_values =
     Inr (tables_of ex_run, sctypes_of ex_run) \<and>
   distinct (map fst ex_typeinfo) \<and>
   (''float32'', \<lparr>kind = ''f'', type = 5\<rparr>) \<in> set ex_typeinfo \<and>
   \<not> startswith ''float32'' ''NPY_'' \<and>
   ''float32'' \<notin> fst ` set (aliases @ extra_aliases) \<and>
   sctypeDict (tables_of ex_run) ''float32'' = Some 5"
proof -
  have m: "(''float32'', \<lparr>kind = ''f'', type = 5\<rparr>) \<in> set ex_typeinfo"
    by (simp add: ex_typeinfo_def)
  have p: "\<not> startswith ''float32'' ''NPY_''"
    by (simp add: startswith_def)
  have n: "''float32'' \<notin> fst ` set (aliases @ extra_aliases)"
    by (simp add: aliases_def extra_aliases_def)
  from registry_names_in_broad [OF ex_script ex_distinct m p] n
  have "sctypeDict (tables_of ex_run) ''float32'' = Some 5" by simp
  with ex_script ex_distinct m p n show ?thesis by (simp only: simp_thms)
qed

text \<open>
  Claim C7 fails as it is stated. The loop of line 40 writes every registry name without
  the prefix into \<^verbatim>\<open>allTypes\<close>, a name of \<^verbatim>\<open>_extra_aliases\<close> included: here the
  registry has an entry \<^verbatim>\<open>long\<close>, and \<^verbatim>\<open>long\<close> is a key of \<^verbatim>\<open>allTypes\<close>.
\<close>

theorem convenience_name_in_narrow_counterexample:
  "\<not> isl odd_run \<and> distinct (map fst odd_typeinfo) \<and>
   ''long'' \<in> fst ` set extra_aliases \<and>
   (''long'', \<lparr>kind = ''i'', type = 20\<rparr>) \<in> set odd_typeinfo \<and>
   allTypes (tables_of odd_run) ''long'' = Some 20"
proof -
  have "allTypes (tables_of odd_run) ''long'' = Some 20"
    unfolding odd_run_def tables_of_def by code_simp
  moreover have "(''long'', \<lparr>kind = ''i'', type = 20\<rparr>) \<in> set odd_typeinfo"
    by (simp add: odd_typeinfo_def)
  moreover have "''long'' \<in> fst ` set extra_aliases"
    by (simp add: extra_aliases_def)
  ultimately show ?thesis using odd_run_ok odd_distinct by simp
qed

text \<open>
  Claim C7, amended. The loop of line 76 leaves \<^verbatim>\<open>allTypes\<close> as it is, whatever the
  tables are. When the script has run, every key of \<^verbatim>\<open>_extra_aliases\<close> is a key
  of \<^verbatim>\<open>sctypeDict\<close>, and \<^verbatim>\<open>allTypes\<close> has it exactly when the registry itself
  has an entry of this name, with the type of that entry.
\<close>

theorem convenience_names_broad_only:
  assumes "script ma issubclass itemsize typeinfo vs = Inr (T :: 'ty tables, S)"
    and "distinct (map fst typeinfo)"
  shows "(\<forall>s s' :: 'ty tables. extra_alias_loop extra_aliases s = Inr s' \<longrightarrow>
            allTypes s' = allTypes s \<and> c_names_dict s' = c_names_dict s) \<and>
    (\<forall>k\<in>fst ` set extra_aliases.
       sctypeDict T k \<noteq> None \<and> allTypes T k = registered typeinfo k)"
proof -
  from assms(1) have b: "build_tables ma itemsize typeinfo = Inr T"
    by (simp add: script_Inr)
  note sc = sctypeDict_lookup [OF b assms(2)]
  note al = allTypes_lookup [OF b assms(2)]
  note r = build_tables_result(4) [OF b assms(2)]
  have frame: "allTypes s' = allTypes s \<and> c_names_dict s' = c_names_dict s"
    if "extra_alias_loop extra_aliases s = Inr s'" for s s' :: "'ty tables"
    using extra_alias_loop_result [OF that extra_aliases_distinct] by simp
  have key: "sctypeDict T k \<noteq> None \<and> allTypes T k = registered typeinfo k"
    if k: "k \<in> fst ` set extra_aliases" for k
  proof -
    from k obtain target where m: "map_of extra_aliases k = Some target"
      using map_of_None_notin [of extra_aliases k] by auto
    from map_of_SomeD [OF m] have "target \<in> snd ` set extra_aliases" by force
    with r have "registered typeinfo target \<noteq> None" by blast
    with m have 1: "sctypeDict T k \<noteq> None" by (simp add: sc)
    from k alias_keys_disjoint have "k \<notin> fst ` set aliases" by blast
    then have na: "map_of aliases k = None" by (simp add: map_of_None_notin)
    from k abstract_not_alias have "k \<notin> set abstract_type_names" by blast
    then have ng: "getattr ma k = None" using getattr_dom [of ma k] by blast
    from k extra_aliases_no_digit have "\<not> ends_in_digit k" by blast
    then have ne: "extended itemsize typeinfo k = None" by (rule extended_None)
    from na ng ne have "allTypes T k = registered typeinfo k"
      by (simp add: al split: option.splits)
    with 1 show ?thesis by simp
  qed
  show ?thesis
  proof (intro conjI allI impI ballI)
    fix s s' :: "'ty tables"
    assume l: "extra_alias_loop extra_aliases s = Inr s'"
    from frame [OF l] show "allTypes s' = allTypes s" ..
    from frame [OF l] show "c_names_dict s' = c_names_dict s" ..
  next
    fix k
    assume k: "k \<in> fst ` set extra_aliases"
    from key [OF k] show "sctypeDict T k \<noteq> None" ..
    from key [OF k] show "allTypes T k = registered typeinfo k" ..
  qed
qed

theorem convenience_names_broad_only_witness:
  "script ex_ma ex_issubclass ex_itemsize ex_typeinfo ex_values =
     Inr (tables_of ex_run, sctypes_of ex_run) \<and>
   distinct (map fst ex_typeinfo) \<and>
   ''int'' \<in> fst ` set extra_aliases \<and>
   registered ex_typeinfo ''int'' = None \<and>
   sctypeDict (tables_of ex_run) ''int'' = Some 2 \<and>
   allTypes (tables_of ex_run) ''int'' = None"
proof -
  have k: "''int'' \<in> fst ` set extra_aliases"
    by (simp add: extra_aliases_def)
  have r: "registered ex_typeinfo ''int'' = None"
    by (simp add: registered_def ex_typeinfo_def)
  have s: "sctypeDict (tables_of ex_run) ''int'' = Some 2"
    unfolding ex_run_def tables_of_def by code_simp
  from convenience_names_broad_only [OF ex_script ex_distinct]
  have "\<forall>k\<in>fst ` set extra_aliases. sctypeDict (tables_of ex_run) k \<noteq> None \<and>
          allTypes (tables_of ex_run) k = registered ex_typeinfo k"
    by (rule conjunct2)
  from bspec [OF this k] r
  have "allTypes (tables_of ex_run) ''int'' = None" by simp
  with ex_script ex_distinct k r s show ?thesis by (simp only: simp_thms)
qed

text \<open>
  Claim C3 fails as it is stated. The last loop writes under the guard of line 86 and
  overwrites nothing: where \<^verbatim>\<open>longdouble\<close> has eight bytes its name is
  \<^verbatim>\<open>float64\<close>, which the registry has, and both tables keep the registry's type 6
  instead of the type 7 of \<^verbatim>\<open>longdouble\<close>.
\<close>

theorem extended_phase_keeps_entry_counterexample:
  "\<not> isl narrow_run \<and> distinct (map fst ex_typeinfo) \<and>
   allTypes (tables_of narrow_run) ''longdouble'' = Some 7 \<and>
   extended_prec_name narrow_itemsize False 7 = ''float64'' \<and>
   sctypeDict (tables_of narrow_run) ''float64'' = Some 6 \<and>
   allTypes (tables_of narrow_run) ''float64'' = Some 6"
proof -
  have "allTypes (tables_of narrow_run) ''longdouble'' = Some 7"
    unfolding narrow_run_def tables_of_def by code_simp
  moreover have "extended_prec_name narrow_itemsize False 7 = ''float64''"
    by code_simp
  moreover have "sctypeDict (tables_of narrow_run) ''float64'' = Some 6"
    unfolding narrow_run_def tables_of_def by code_simp
  moreover have "allTypes (tables_of narrow_run) ''float64'' = Some 6"
    unfolding narrow_run_def tables_of_def by code_simp
  ultimately show ?thesis using narrow_run_ok ex_distinct by simp
qed

text \<open>
  Claim C3, amended. When the script has run, the tables are what the order of the loops
  makes them. In \<^verbatim>\<open>sctypeDict\<close> a key of \<^verbatim>\<open>_extra_aliases\<close> has the type of its
  target, whatever was written before; otherwise a key of \<^verbatim>\<open>_aliases\<close> has the
  type of its target; otherwise a name of the registry has its own type; and only a name
  that none of these loops wrote can be an extended-precision name. In \<^verbatim>\<open>allTypes\<close>
  the order is the same without \<^verbatim>\<open>_extra_aliases\<close>, the abstract categories come
  after the registry, and the extended-precision names come last again: the last loop
  never overwrites.
\<close>

theorem tables_by_phase_order:
  assumes "script ma issubclass itemsize typeinfo vs = Inr (T, S)"
    and "distinct (map fst typeinfo)"
  shows "sctypeDict T k =
     (case map_of extra_aliases k of
        Some v \<Rightarrow> registered typeinfo v
      | None \<Rightarrow>
          (case map_of aliases k of
             Some v \<Rightarrow> registered typeinfo v
           | None \<Rightarrow>
               (case registered typeinfo k of
                  Some t \<Rightarrow> Some t
                | None \<Rightarrow> extended itemsize typeinfo k))) \<and>
    allTypes T k =
     (case map_of aliases k of
        Some v \<Rightarrow> registered typeinfo v
      | None \<Rightarrow>
          (case registered typeinfo k of
             Some t \<Rightarrow> Some t
           | None \<Rightarrow>
               (case getattr ma k of
                  Some t \<Rightarrow> Some t
                | None \<Rightarrow> extended itemsize typeinfo k)))"
proof -
  from assms(1) have b: "build_tables ma itemsize typeinfo = Inr T"
    by (simp add: script_Inr)
  from sctypeDict_lookup [OF b assms(2), of k] allTypes_lookup [OF b assms(2), of k]
  show ?thesis by (rule conjI)
qed

theorem tables_by_phase_order_witness:
  "script ex_ma ex_issubclass ex_itemsize ex_typeinfo ex_values =
     Inr (tables_of ex_run, sctypes_of ex_run) \<and>
   distinct (map fst ex_typeinfo) \<and>
   sctypeDict (tables_of ex_run) ''double'' = Some 6 \<and>
   allTypes (tables_of ex_run) ''double'' = Some 6 \<and>
   sctypeDict (tables_of ex_run) ''float128'' = Some 7 \<and>
   allTypes (tables_of ex_run) ''float128'' = Some 7"
proof -
  have x: "map_of extra_aliases ''double'' = None" "map_of aliases ''double'' = Some ''float64''"
    "map_of extra_aliases ''float128'' = None" "map_of aliases ''float128'' = None"
    by (simp_all add: extra_aliases_def aliases_def)
  have r: "registered ex_typeinfo ''float64'' = Some 6"
    "registered ex_typeinfo ''float128'' = None"
    by (simp_all add: registered_def ex_typeinfo_def startswith_def)
  have g: "getattr ex_ma ''float128'' = None"
    by (simp add: getattr_def)
  have e: "extended ex_itemsize ex_typeinfo ''float128'' = Some 7"
    by code_simp
  from tables_by_phase_order [OF ex_script ex_distinct, of "''double''"] x r
  have 1: "sctypeDict (tables_of ex_run) ''double'' = Some 6 \<and>
           allTypes (tables_of ex_run) ''double'' = Some 6" by simp
  from tables_by_phase_order [OF ex_script ex_distinct, of "''float128''"] x r g e
  have 2: "sctypeDict (tables_of ex_run) ''float128'' = Some 7 \<and>
           allTypes (tables_of ex_run) ''float128'' = Some 7" by simp
  from ex_script ex_distinct 1 2 show ?thesis by (simp only: simp_thms)
qed

text \<open>
  Claim C2, on a registry the script meets. The comment of line 103 says that the loop
  finds the group of each concrete type, as the claim does. But line 97 iterates a set of
  the registry's values, and a set keeps one of two values that compare equal: the values
  of \<^verbatim>\<open>int_\<close> and \<^verbatim>\<open>longlong\<close> compare equal and have the concrete types 2 and
  21. The run classifies 2 alone. The type 21, a subclass of \<^verbatim>\<open>signedinteger\<close> whose
  kind is \<^verbatim>\<open>i\<close>, is in none of the five lists.
\<close>

theorem longlong_in_no_group:
  "\<not> isl linux_run \<and> distinct (map fst linux_typeinfo) \<and>
   iterates linux_same ex_values linux_typeinfo \<and>
   (''int_'', \<lparr>kind = ''i'', type = 2\<rparr>) \<in> set linux_typeinfo \<and>
   (''longlong'', \<lparr>kind = ''i'', type = 21\<rparr>) \<in> set linux_typeinfo \<and>
   linux_same ''int_'' ''longlong'' \<and>
   linux_issubclass 21 (signedinteger ex_ma) \<and>
   sctypes_of linux_run ''int'' = Some [2] \<and>
   sctypes_of linux_run ''uint'' = Some [3] \<and>
   sctypes_of linux_run ''float'' = Some [4, 5, 6, 7] \<and>
   sctypes_of linux_run ''complex'' = Some [8, 9, 10] \<and>
   sctypes_of linux_run ''others'' = Some [13, 12, 1, 11]"
proof -
  have "distinct (map fst linux_typeinfo)" by code_simp
  moreover have "(''int_'', \<lparr>kind = ''i'', type = 2\<rparr>) \<in> set linux_typeinfo"
    "(''longlong'', \<lparr>kind = ''i'', type = 21\<rparr>) \<in> set linux_typeinfo"
    by (simp_all add: linux_typeinfo_def ex_typeinfo_def)
  moreover have "linux_same ''int_'' ''longlong''" by code_simp
  moreover have "linux_issubclass 21 (signedinteger ex_ma)" by code_simp
  moreover have "sctypes_of linux_run ''int'' = Some [2]"
    unfolding linux_run_def sctypes_of_def by code_simp
  moreover have "sctypes_of linux_run ''uint'' = Some [3]"
    unfolding linux_run_def sctypes_of_def by code_simp
  moreover have "sctypes_of linux_run ''float'' = Some [4, 5, 6, 7]"
    unfolding linux_run_def sctypes_of_def by code_simp
  moreover have "sctypes_of linux_run ''complex'' = Some [8, 9, 10]"
    unfolding linux_run_def sctypes_of_def by code_simp
  moreover have "sctypes_of linux_run ''others'' = Some [13, 12, 1, 11]"
    unfolding linux_run_def sctypes_of_def by code_simp
  ultimately show ?thesis using linux_run_ok linux_iterates by simp
qed

text \<open>
  Claim C10 fails as it is stated. The loop of line 40 writes every registry name
  without the prefix into \<^verbatim>\<open>sctypeDict\<close>, the name of an abstract category
  included: here the registry has an entry \<^verbatim>\<open>integer\<close>.
\<close>

theorem abstract_name_in_broad_counterexample:
  "\<not> isl odd_run \<and> distinct (map fst odd_typeinfo) \<and>
   ''integer'' \<in> set abstract_type_names \<and>
   (''integer'', \<lparr>kind = ''u'', type = 20\<rparr>) \<in> set odd_typeinfo \<and>
   sctypeDict (tables_of odd_run) ''integer'' = Some 20"
proof -
  have "sctypeDict (tables_of odd_run) ''integer'' = Some 20"
    unfolding odd_run_def tables_of_def by code_simp
  moreover have "(''integer'', \<lparr>kind = ''u'', type = 20\<rparr>) \<in> set odd_typeinfo"
    by (simp add: odd_typeinfo_def)
  moreover have "''integer'' \<in> set abstract_type_names"
    by (simp add: abstract_type_names_def)
  ultimately show ?thesis using odd_run_ok odd_distinct by simp
qed

text \<open>
  Claim C10, amended. When the script has run, each of the ten abstract category names is
  a key of \<^verbatim>\<open>allTypes\<close>. Where the registry has an entry of this name, both
  \<^verbatim>\<open>sctypeDict\<close> and \<^verbatim>\<open>allTypes\<close> map the name to the concrete type of that
  entry; where it has none, the name is no key of \<^verbatim>\<open>sctypeDict\<close>, and
  \<^verbatim>\<open>allTypes\<close> maps it to the attribute of \<^verbatim>\<open>ma\<close>.
\<close>

theorem abstract_names_narrow:
  assumes "script ma issubclass itemsize typeinfo vs = Inr (T, S)"
    and "distinct (map fst typeinfo)"
    and "k \<in> set abstract_type_names"
  shows "allTypes T k \<noteq> None \<and>
    (\<forall>v. (k, v) \<in> set typeinfo \<longrightarrow>
       sctypeDict T k = Some (type v) \<and> allTypes T k = Some (type v)) \<and>
    (k \<notin> fst ` set typeinfo \<longrightarrow> sctypeDict T k = None \<and> allTypes T k = getattr ma k)"
proof -
  from assms(1) have b: "build_tables ma itemsize typeinfo = Inr T"
    by (simp add: script_Inr)
  note sc = sctypeDict_lookup [OF b assms(2)]
  note al = allTypes_lookup [OF b assms(2)]
  from assms(3) abstract_not_alias
  have "k \<notin> fst ` set aliases" "k \<notin> fst ` set extra_aliases" by blast+
  then have na: "map_of aliases k = None" and nx: "map_of extra_aliases k = None"
    by (simp_all add: map_of_None_notin)
  from assms(3) abstract_type_names_no_digit have "\<not> ends_in_digit k" by blast
  then have ne: "extended itemsize typeinfo k = None" by (rule extended_None)
  from assms(3) have g: "getattr ma k \<noteq> None" using getattr_dom [of ma k] by blast
  have s: "sctypeDict T k = registered typeinfo k"
    using na nx ne by (simp add: sc split: option.splits)
  have a: "allTypes T k = (case registered typeinfo k of Some t \<Rightarrow> Some t | None \<Rightarrow> getattr ma k)"
    using na ne g by (auto simp: al split: option.splits)
  have 1: "allTypes T k \<noteq> None"
    using g by (simp add: a split: option.splits)
  have 2: "sctypeDict T k = Some (type v) \<and> allTypes T k = Some (type v)"
    if "(k, v) \<in> set typeinfo" for v
    using registered_entry [OF assms(2) that abstract_no_prefix [OF assms(3)]]
    by (simp add: s a)
  have 3: "sctypeDict T k = None \<and> allTypes T k = getattr ma k"
    if "k \<notin> fst ` set typeinfo"
    using registered_absent [OF that] by (simp add: s a)
  from 1 2 3 show ?thesis by blast
qed

theorem abstract_names_narrow_witness:
  "script ex_ma ex_issubclass ex_itemsize ex_typeinfo ex_values =
     Inr (tables_of ex_run, sctypes_of ex_run) \<and>
   distinct (map fst ex_typeinfo) \<and>
   ''generic'' \<in> set abstract_type_names \<and>
   ''generic'' \<notin> fst ` set ex_typeinfo \<and>
   allTypes (tables_of ex_run) ''generic'' = Some 100 \<and>
   sctypeDict (tables_of ex_run) ''generic'' = None \<and>
   script ex_ma ex_issubclass ex_itemsize odd_typeinfo odd_values =
     Inr (tables_of odd_run, sctypes_of odd_run) \<and>
   distinct (map fst odd_typeinfo) \<and>
   ''integer'' \<in> set abstract_type_names \<and>
   (''integer'', \<lparr>kind = ''u'', type = 20\<rparr>) \<in> set odd_typeinfo \<and>
   allTypes (tables_of odd_run) ''integer'' = Some 20 \<and>
   sctypeDict (tables_of odd_run) ''integer'' = Some 20"
proof -
  have k: "''generic'' \<in> set abstract_type_names" "''integer'' \<in> set abstract_type_names"
    by (simp_all add: abstract_type_names_def)
  have r: "''generic'' \<notin> fst ` set ex_typeinfo"
    by (simp add: ex_typeinfo_def)
  have g: "getattr ex_ma ''generic'' = Some 100"
    by (simp add: getattr_def ex_ma_def)
  have m: "(''integer'', \<lparr>kind = ''u'', type = 20\<rparr>) \<in> set odd_typeinfo"
    by (simp add: odd_typeinfo_def)
  from abstract_names_narrow [OF ex_script ex_distinct k(1)] r g
  have 1: "allTypes (tables_of ex_run) ''generic'' = Some 100"
    and 2: "sctypeDict (tables_of ex_run) ''generic'' = None" by simp_all
  from abstract_names_narrow [OF odd_script odd_distinct k(2)] m
  have "sctypeDict (tables_of odd_run) ''integer'' = Some (type \<lparr>kind = ''u'', type = 20 :: nat\<rparr>) \<and>
        allTypes (tables_of odd_run) ''integer'' = Some (type \<lparr>kind = ''u'', type = 20 :: nat\<rparr>)"
    by blast
  then have 3: "allTypes (tables_of odd_run) ''integer'' = Some 20"
    and 4: "sctypeDict (tables_of odd_run) ''integer'' = Some 20" by simp_all
  from ex_script ex_distinct odd_script odd_distinct k r m 1 2 3 4 show ?thesis
    by (simp only: simp_thms)
qed






end
